theory Spec2Isabelle
  imports Complex_Main "HOL-Library.Sublist" "HOL-Library.Log_Nat"
begin

section \<open>Python strings\<close>

text \<open>
  A Python \<open>str\<close> is a sequence of Unicode code points, so it is modelled as a list
  of naturals. \<open>lit\<close> turns an ASCII literal of the source into such a list.
\<close>

type_synonym ustr = "nat list"

definition lit :: "string \<Rightarrow> ustr" where
  "lit s = map of_char s"

definition is_ascii :: "nat \<Rightarrow> bool" where
  "is_ascii c \<longleftrightarrow> c < 128"

text \<open>
  \<open>Py_UNICODE_ISSPACE\<close>: the characters removed by \<open>str.strip()\<close> and matched by
  \<open>\s\<close> in a \<open>str\<close> pattern.
\<close>

definition is_space :: "nat \<Rightarrow> bool" where
  "is_space c \<longleftrightarrow>
     (9 \<le> c \<and> c \<le> 13) \<or> (28 \<le> c \<and> c \<le> 32) \<or> c = 0x85 \<or> c = 0xA0 \<or> c = 0x1680 \<or>
     (0x2000 \<le> c \<and> c \<le> 0x200A) \<or> c = 0x2028 \<or> c = 0x2029 \<or> c = 0x202F \<or>
     c = 0x205F \<or> c = 0x3000"

definition ascii_alnum :: "nat \<Rightarrow> bool" where
  "ascii_alnum c \<longleftrightarrow> (48 \<le> c \<and> c \<le> 57) \<or> (65 \<le> c \<and> c \<le> 90) \<or> (97 \<le> c \<and> c \<le> 122)"

definition ascii_lower :: "nat \<Rightarrow> nat" where
  "ascii_lower c = (if 65 \<le> c \<and> c \<le> 90 then c + 32 else c)"

text \<open>
  What the run takes from its platform and from the Unicode tables of its libraries:
  \<open>os.linesep\<close>, the replacement string \<open>unidecode\<close> has for a code point outside
  ASCII, \<open>str.lower\<close> on a string that is not pure ASCII, the alphanumeric
  code points outside ASCII (for \<open>\W\<close>), the network locations \<open>urlsplit\<close> refuses
  among those with a bracket or a character outside ASCII (a bracketed host that is no IP
  literal, characters that become delimiters under NFKC),
  and the sleeps the operating system refuses.
\<close>

record platform =
  linesep :: ustr
  unidecode_table :: "nat \<Rightarrow> ustr"
  lower_nonascii :: "ustr \<Rightarrow> ustr"
  isalnum_nonascii :: "nat \<Rightarrow> bool"
  netloc_rejected :: "ustr \<Rightarrow> bool"
  sleep_refused :: "int \<Rightarrow> bool"

definition unidecode :: "platform \<Rightarrow> ustr \<Rightarrow> ustr" where
  "unidecode P s = concat (map (\<lambda>c. if c < 0x80 then [c] else unidecode_table P c) s)"

definition lower :: "platform \<Rightarrow> ustr \<Rightarrow> ustr" where
  "lower P s = (if list_all is_ascii s then map ascii_lower s else lower_nonascii P s)"

definition strip :: "ustr \<Rightarrow> ustr" where
  "strip s = rev (dropWhile is_space (rev (dropWhile is_space s)))"

definition startswith :: "ustr \<Rightarrow> ustr \<Rightarrow> bool" where
  "startswith s p = prefix p s"

definition contains :: "ustr \<Rightarrow> ustr \<Rightarrow> bool" where
  "contains s p = sublist p s"

text \<open>\<open>s.replace(old, new)\<close>: the occurrences of \<open>old\<close>, left to right, without overlap.\<close>

function replace :: "ustr \<Rightarrow> ustr \<Rightarrow> ustr \<Rightarrow> ustr" where
  "replace old new [] = (if old = [] then new else [])"
| "replace old new (c # cs) =
     (if old = [] then new @ c # replace old new cs
      else if prefix old (c # cs) then new @ replace old new (drop (length old) (c # cs))
      else c # replace old new cs)"
  by pat_completeness auto
termination
  by (relation "measure (\<lambda>(old, new, s). length s)") auto

section \<open>Filename derivation\<close>

definition is_word :: "platform \<Rightarrow> nat \<Rightarrow> bool" where
  "is_word P c \<longleftrightarrow> (if c < 128 then ascii_alnum c else isalnum_nonascii P c) \<or> c = 95"

text \<open>
  \<open>re.sub("\\s+|\\W", "_", s)\<close>: at each position the first alternative that matches
  wins, so a run of whitespace becomes one underscore, and any other character that is
  not a word character becomes one underscore of its own.
\<close>

function sub_space_nonword :: "platform \<Rightarrow> ustr \<Rightarrow> ustr" where
  "sub_space_nonword P [] = []"
| "sub_space_nonword P (c # cs) =
     (if is_space c then 95 # sub_space_nonword P (dropWhile is_space cs)
      else if \<not> is_word P c then 95 # sub_space_nonword P cs
      else c # sub_space_nonword P cs)"
  by pat_completeness auto
termination
  by (relation "measure (\<lambda>(P, s). length s)")
     (auto simp: length_dropWhile_le less_Suc_eq_le)

text \<open>\<open>re.sub("_+", "_", s)\<close>: every run of underscores becomes one underscore.\<close>

function sub_underscores :: "ustr \<Rightarrow> ustr" where
  "sub_underscores [] = []"
| "sub_underscores (c # cs) =
     (if c = 95 then 95 # sub_underscores (dropWhile (\<lambda>d. d = 95) cs)
      else c # sub_underscores cs)"
  by pat_completeness auto
termination
  by (relation "measure length") (auto simp: length_dropWhile_le less_Suc_eq_le)

definition derive_filename :: "platform \<Rightarrow> ustr \<Rightarrow> ustr" where
  "derive_filename P title = sub_underscores (sub_space_nonword P (unidecode P title))"

fun no_adjacent_underscores :: "ustr \<Rightarrow> bool" where
  "no_adjacent_underscores (x # y # s) =
     (\<not> (x = 95 \<and> y = 95) \<and> no_adjacent_underscores (y # s))"
| "no_adjacent_underscores s = True"

section \<open>Text normalisation\<close>

text \<open>
  A content node is an element of the parsed document; \<open>text_content()\<close> is the
  concatenation of the text of the node and of its descendants, in document order.
\<close>

datatype node = Text ustr | Element "node list"

fun text_content :: "node \<Rightarrow> ustr" where
  "text_content (Text s) = s"
| "text_content (Element ns) = concat (map text_content ns)"

text \<open>The loop \<open>for paragraph_element in contents: utf8_content += ...\<close>.\<close>

fun join_paragraphs :: "platform \<Rightarrow> ustr \<Rightarrow> node list \<Rightarrow> ustr" where
  "join_paragraphs P utf8_content [] = utf8_content"
| "join_paragraphs P utf8_content (paragraph_element # rest) =
     join_paragraphs P (utf8_content @ text_content paragraph_element @ linesep P) rest"

text \<open>Backslash is 92, \<open>n\<close> is 110, \<open>r\<close> is 114; newline is 10 and carriage return 13.\<close>

definition normalize_nodes :: "platform \<Rightarrow> node list \<Rightarrow> ustr" where
  "normalize_nodes P contents =
     (let utf8_content = join_paragraphs P [] contents;
          fixed_nl_content = replace [92, 114] [13] (replace [92, 110] [10] utf8_content);
          ascii_content = unidecode P fixed_nl_content
      in strip ascii_content)"

subsection \<open>The normaliser as the specification words it\<close>

text \<open>
  Step 2 of the specification as one pass over the text: every two-character sequence
  backslash-n becomes a newline and every backslash-r a carriage return.
\<close>

fun unescape :: "ustr \<Rightarrow> ustr" where
  "unescape (a # b # s) =
     (if a = 92 \<and> b = 110 then 10 # unescape s
      else if a = 92 \<and> b = 114 then 13 # unescape s
      else a # unescape (b # s))"
| "unescape s = s"

definition transliterate :: "platform \<Rightarrow> ustr \<Rightarrow> ustr" where
  "transliterate P s = concat (map (\<lambda>c. if is_ascii c then [c] else unidecode_table P c) s)"

definition trim :: "ustr \<Rightarrow> ustr" where
  "trim s = rev (dropWhile is_space (rev (dropWhile is_space s)))"

definition normalize_spec :: "platform \<Rightarrow> node list \<Rightarrow> ustr" where
  "normalize_spec P nodes =
     trim (transliterate P (unescape (concat (map (\<lambda>n. text_content n @ linesep P) nodes))))"

section \<open>Extraction of one page\<close>

text \<open>The matches of the three configured queries on the parsed document.\<close>

record page =
  title_matches :: "ustr list"
  contents :: "node list"
  nexturl_matches :: "ustr list"

record extraction =
  title :: ustr
  filename :: ustr
  content_firstline :: ustr
  final_content :: ustr

definition reconcile_heading :: "platform \<Rightarrow> ustr \<Rightarrow> ustr \<Rightarrow> ustr \<Rightarrow> ustr" where
  "reconcile_heading P ttl firstline ascii_content =
     (if \<not> (startswith firstline (lit ''chapter'') \<or> contains firstline (lower P ttl))
      then lit ''## '' @ ttl @ linesep P @ ascii_content
      else lit ''## '' @ ascii_content)"

section \<open>Exceptions, the file system, the log\<close>

text \<open>
  A \<open>pathlib.Path\<close> (POSIX flavour): whether it is absolute, and its parts; empty parts
  and \<open>.\<close> parts are dropped when the path is built from a string.
\<close>

type_synonym path = "bool \<times> ustr list"

text \<open>
  The argument of \<open>SystemExit\<close>, which decides the exit status of the interpreter: none,
  or a string (the source gives no other).
\<close>

datatype exit_arg = ExitNone | ExitStr string

datatype exception =
    SystemError string
  | RequestException string int
  | ConnectionError
  | ParserError
  | IndexError
  | FileExistsError path
  | NotADirectoryError
  | IsADirectoryError
  | FileNotFoundError
  | SystemExit exit_arg
  | ValueError
  | OverflowError
  | OSError

text \<open>
  What the interpreter does with an exception that nothing catches: \<open>SystemExit\<close> with
  no argument ends the process with status 0; with a string it prints the string on
  standard error and ends with status 1, the status of every other uncaught exception.
\<close>

fun exit_status :: "exception \<Rightarrow> int" where
  "exit_status (SystemExit ExitNone) = 0"
| "exit_status (SystemExit (ExitStr s)) = 1"
| "exit_status e = 1"

fun str_split :: "nat \<Rightarrow> ustr \<Rightarrow> ustr list" where
  "str_split sep [] = [[]]"
| "str_split sep (c # cs) =
     (if c = sep then [] # str_split sep cs
      else (case str_split sep cs of [] \<Rightarrow> [[c]] | h # t \<Rightarrow> (c # h) # t))"

fun str_join :: "ustr \<Rightarrow> ustr list \<Rightarrow> ustr" where
  "str_join sep [] = []"
| "str_join sep [p] = p"
| "str_join sep (p # q # ps) = p @ sep @ str_join sep (q # ps)"

definition Path :: "ustr \<Rightarrow> path" where
  "Path pathstr =
     (startswith pathstr (lit ''/''), filter (\<lambda>p. p \<noteq> [] \<and> p \<noteq> lit ''.'') (str_split 47 pathstr))"

definition parent :: "path \<Rightarrow> path" where
  "parent p = (fst p, butlast (snd p))"

text \<open>
  The file system is a tree: a regular file with its text, or a directory with its
  entries. A location is the list of the names from the root down to a node.
\<close>

datatype fsnode = File ustr | Dir "ustr \<Rightarrow> fsnode option"

fun fs_lookup :: "fsnode \<Rightarrow> ustr list \<Rightarrow> fsnode option" where
  "fs_lookup n [] = Some n"
| "fs_lookup (File c) (p # ps) = None"
| "fs_lookup (Dir m) (p # ps) = (case m p of None \<Rightarrow> None | Some n \<Rightarrow> fs_lookup n ps)"

text \<open>The tree with the node at a location made or replaced.\<close>

fun fs_set :: "fsnode \<Rightarrow> ustr list \<Rightarrow> fsnode \<Rightarrow> fsnode" where
  "fs_set n [] new = new"
| "fs_set (File c) (p # ps) new = File c"
| "fs_set (Dir m) (p # ps) new =
     Dir (m(p \<mapsto> fs_set (case m p of None \<Rightarrow> Dir Map.empty | Some k \<Rightarrow> k) ps new))"

text \<open>
  How the operating system follows the parts of a path from a location. \<open>pathlib\<close>
  keeps the \<open>..\<close> parts of a path, and the system takes every part, \<open>..\<close> too, in a
  directory that exists: a part taken where nothing is is a \<open>FileNotFoundError\<close>, one
  taken in a regular file a \<open>NotADirectoryError\<close>. A \<open>..\<close> leads to the directory
  above, and the root is above itself. There are no symbolic links, no permissions and
  no limits on names in this model.
\<close>

fun walk :: "fsnode \<Rightarrow> ustr list \<Rightarrow> ustr list \<Rightarrow> exception + ustr list" where
  "walk r here [] = Inr here"
| "walk r here (p # ps) =
     (case fs_lookup r here of
        None \<Rightarrow> Inl FileNotFoundError
      | Some (File c) \<Rightarrow> Inl NotADirectoryError
      | Some (Dir m) \<Rightarrow> walk r (if p = lit ''..'' then butlast here else here @ [p]) ps)"

text \<open>\<open>os.stat\<close>: the node a path leads to.\<close>

definition stat :: "fsnode \<Rightarrow> ustr list \<Rightarrow> ustr list \<Rightarrow> exception + fsnode" where
  "stat r start parts =
     (case walk r start parts of
        Inl e \<Rightarrow> Inl e
      | Inr loc \<Rightarrow> (case fs_lookup r loc of None \<Rightarrow> Inl FileNotFoundError | Some n \<Rightarrow> Inr n))"

definition is_dir :: "fsnode \<Rightarrow> ustr list \<Rightarrow> ustr list \<Rightarrow> bool" where
  "is_dir r start parts = (case stat r start parts of Inr (Dir m) \<Rightarrow> True | _ \<Rightarrow> False)"

text \<open>
  \<open>os.mkdir\<close>: the directory above the last part must exist, and the last part must
  name nothing in it (\<open>..\<close> and the path with no part name a directory that is
  there).
\<close>

definition os_mkdir :: "path \<Rightarrow> fsnode \<Rightarrow> ustr list \<Rightarrow> exception + fsnode" where
  "os_mkdir p r start =
     (if snd p = [] then Inl (FileExistsError p)
      else
        case walk r start (butlast (snd p)) of
          Inl e \<Rightarrow> Inl e
        | Inr loc \<Rightarrow>
            (case fs_lookup r loc of
               None \<Rightarrow> Inl FileNotFoundError
             | Some (File c) \<Rightarrow> Inl NotADirectoryError
             | Some (Dir m) \<Rightarrow>
                 if last (snd p) = lit ''..'' \<or> m (last (snd p)) \<noteq> None
                 then Inl (FileExistsError p)
                 else Inr (fs_set r (loc @ [last (snd p)]) (Dir Map.empty))))"

text \<open>
  \<open>Path.mkdir(parents=True, exist_ok=True)\<close>, as \<open>pathlib\<close> writes it: \<open>os.mkdir\<close>
  is tried; on \<open>FileNotFoundError\<close> the parent is made in the same way and \<open>os.mkdir\<close>
  tried again; any other \<open>OSError\<close> is raised again unless the path is a directory.
  The parts are given last part first, so that the parent is the tail. The tree is
  returned with the error: the parents made before it stay.
\<close>

fun mkdir_rev :: "bool \<Rightarrow> fsnode \<Rightarrow> ustr list \<Rightarrow> ustr list \<Rightarrow> exception option \<times> fsnode" where
  "mkdir_rev a r start [] =
     (case os_mkdir (a, []) r start of
        Inr r1 \<Rightarrow> (None, r1)
      | Inl e \<Rightarrow>
          if e \<noteq> FileNotFoundError \<and> is_dir r start [] then (None, r) else (Some e, r))"
| "mkdir_rev a r start (l # ups) =
     (case os_mkdir (a, rev (l # ups)) r start of
        Inr r1 \<Rightarrow> (None, r1)
      | Inl e \<Rightarrow>
          if e = FileNotFoundError
          then
            (case mkdir_rev a r start ups of
               (Some e2, r2) \<Rightarrow> (Some e2, r2)
             | (None, r2) \<Rightarrow>
                 (case os_mkdir (a, rev (l # ups)) r2 start of
                    Inr r3 \<Rightarrow> (None, r3)
                  | Inl e3 \<Rightarrow>
                      if e3 \<noteq> FileNotFoundError \<and> is_dir r2 start (rev (l # ups))
                      then (None, r2) else (Some e3, r2)))
          else if is_dir r start (rev (l # ups)) then (None, r) else (Some e, r))"

text \<open>
  \<open>open(path, mode)\<close> followed by \<open>write\<close>: \<open>f\<close> gives the new text of the file from
  its old text (the empty text when the file is created).
\<close>

definition open_write :: "(ustr \<Rightarrow> ustr) \<Rightarrow> path \<Rightarrow> fsnode \<Rightarrow> ustr list \<Rightarrow> exception + fsnode" where
  "open_write f p r start =
     (if snd p = [] then Inl IsADirectoryError
      else
        case walk r start (butlast (snd p)) of
          Inl e \<Rightarrow> Inl e
        | Inr loc \<Rightarrow>
            (case fs_lookup r loc of
               None \<Rightarrow> Inl FileNotFoundError
             | Some (File c) \<Rightarrow> Inl NotADirectoryError
             | Some (Dir m) \<Rightarrow>
                 if last (snd p) = lit ''..'' then Inl IsADirectoryError
                 else
                   (case m (last (snd p)) of
                      None \<Rightarrow> Inr (fs_set r (loc @ [last (snd p)]) (File (f [])))
                    | Some (Dir d) \<Rightarrow> Inl IsADirectoryError
                    | Some (File c) \<Rightarrow> Inr (fs_set r (loc @ [last (snd p)]) (File (f c))))))"

datatype level = DEBUG | INFO | WARNING | ERROR

text \<open>
  The world a run acts on: the file system and the working directory, the records
  handed to the logger, the URLs requested and the sleeps made, in order.
\<close>

record world =
  fsroot :: fsnode
  cwd :: "ustr list"
  logged :: "(level \<times> string) list"
  requested :: "ustr list"
  slept_ms :: "int list"

definition logmsg :: "level \<Rightarrow> string \<Rightarrow> world \<Rightarrow> world" where
  "logmsg lvl msg w = w\<lparr>logged := logged w @ [(lvl, msg)]\<rparr>"

text \<open>Where a path is followed from: the root, or the working directory.\<close>

definition start_at :: "world \<Rightarrow> path \<Rightarrow> ustr list" where
  "start_at w p = (if fst p then [] else cwd w)"

text \<open>\<open>Path.exists()\<close>: \<open>os.stat\<close> finds a node.\<close>

definition path_exists :: "world \<Rightarrow> path \<Rightarrow> bool" where
  "path_exists w p \<longleftrightarrow>
     (case stat (fsroot w) (start_at w p) (snd p) of Inl e \<Rightarrow> False | Inr n \<Rightarrow> True)"

definition read_text :: "world \<Rightarrow> path \<Rightarrow> ustr option" where
  "read_text w p =
     (case stat (fsroot w) (start_at w p) (snd p) of Inr (File c) \<Rightarrow> Some c | _ \<Rightarrow> None)"

definition mkdir_parents :: "path \<Rightarrow> world \<Rightarrow> exception option \<times> world" where
  "mkdir_parents p w =
     (case mkdir_rev (fst p) (fsroot w) (start_at w p) (rev (snd p)) of
        (e, r) \<Rightarrow> (e, w\<lparr>fsroot := r\<rparr>))"

text \<open>A file opened in text mode writes every newline as \<open>os.linesep\<close>.\<close>

definition text_mode :: "platform \<Rightarrow> ustr \<Rightarrow> ustr" where
  "text_mode P content = replace [10] (linesep P) content"

definition write_content :: "platform \<Rightarrow> ustr \<Rightarrow> ustr \<Rightarrow> world \<Rightarrow> (exception + unit) \<times> world" where
  "write_content P pathstr content w =
     (let path = Path pathstr in
      case mkdir_parents (parent path) w of
        (Some e, w1) \<Rightarrow> (Inl e, w1)
      | (None, w1) \<Rightarrow>
          if path_exists w1 path
          then (Inl (FileExistsError path),
                logmsg ERROR ''Can't write content to an already existsting path: %s'' w1)
          else
            (let w2 = logmsg DEBUG ''Write content: %s'' w1 in
             case open_write (\<lambda>old. text_mode P content) path (fsroot w2) (start_at w2 path) of
               Inl e \<Rightarrow> (Inl e, w2)
             | Inr r \<Rightarrow> (Inr (), w2\<lparr>fsroot := r\<rparr>)))"

definition append_content :: "platform \<Rightarrow> ustr \<Rightarrow> ustr \<Rightarrow> world \<Rightarrow> (exception + unit) \<times> world" where
  "append_content P pathstr content w =
     (let path = Path pathstr in
      case mkdir_parents (parent path) w of
        (Some e, w1) \<Rightarrow> (Inl e, w1)
      | (None, w1) \<Rightarrow>
          (let w2 = logmsg DEBUG ''Append content: %s'' w1 in
           case open_write (\<lambda>old. old @ text_mode P content) path (fsroot w2) (start_at w2 path) of
             Inl e \<Rightarrow> (Inl e, w2)
           | Inr r \<Rightarrow> (Inr (), w2\<lparr>fsroot := r\<rparr>)))"

section \<open>URLs\<close>

text \<open>\<open>urllib.parse\<close>: the tables of schemes, and the characters of a scheme.\<close>

definition uses_relative :: "ustr list" where
  "uses_relative = map lit ['''', ''ftp'', ''http'', ''gopher'', ''nntp'', ''imap'',
     ''wais'', ''file'', ''https'', ''shttp'', ''mms'', ''prospero'', ''rtsp'', ''rtsps'',
     ''rtspu'', ''sftp'', ''svn'', ''svn+ssh'', ''ws'', ''wss'']"

definition uses_netloc :: "ustr list" where
  "uses_netloc = map lit ['''', ''ftp'', ''http'', ''gopher'', ''nntp'', ''telnet'',
     ''imap'', ''wais'', ''file'', ''mms'', ''https'', ''shttp'', ''snews'', ''prospero'',
     ''rtsp'', ''rtsps'', ''rtspu'', ''rsync'', ''svn'', ''svn+ssh'', ''sftp'', ''nfs'',
     ''git'', ''git+ssh'', ''ws'', ''wss'']"

definition uses_params :: "ustr list" where
  "uses_params = map lit ['''', ''ftp'', ''hdl'', ''prospero'', ''http'', ''imap'',
     ''https'', ''shttp'', ''rtsp'', ''rtsps'', ''rtspu'', ''sip'', ''sips'', ''mms'',
     ''sftp'', ''tel'']"

definition ascii_alpha :: "nat \<Rightarrow> bool" where
  "ascii_alpha c \<longleftrightarrow> (65 \<le> c \<and> c \<le> 90) \<or> (97 \<le> c \<and> c \<le> 122)"

definition scheme_char :: "nat \<Rightarrow> bool" where
  "scheme_char c \<longleftrightarrow> ascii_alnum c \<or> c = 43 \<or> c = 45 \<or> c = 46"

definition c0_or_space :: "nat \<Rightarrow> bool" where
  "c0_or_space c \<longleftrightarrow> c \<le> 32"

definition unsafe_url_char :: "nat \<Rightarrow> bool" where
  "unsafe_url_char c \<longleftrightarrow> c = 9 \<or> c = 13 \<or> c = 10"

definition netloc_end :: "nat \<Rightarrow> bool" where
  "netloc_end c \<longleftrightarrow> c = 47 \<or> c = 63 \<or> c = 35"

text \<open>
  \<open>urlsplit(url, scheme)\<close>: scheme, network location, path, query and fragment.
  Colon is 58, slash 47, question mark 63, hash 35, the brackets 91 and 93.
\<close>

definition urlsplit :: "platform \<Rightarrow> ustr \<Rightarrow> ustr \<Rightarrow> exception + (ustr \<times> ustr \<times> ustr \<times> ustr \<times> ustr)" where
  "urlsplit P url0 scheme0 =
     (let url1 = filter (\<lambda>c. \<not> unsafe_url_char c) (dropWhile c0_or_space url0);
          scheme1 = filter (\<lambda>c. \<not> unsafe_url_char c)
                      (rev (dropWhile c0_or_space (rev (dropWhile c0_or_space scheme0))));
          pre = takeWhile (\<lambda>c. c \<noteq> 58) url1;
          has_scheme = (58 \<in> set url1 \<and> pre \<noteq> [] \<and> ascii_alpha (hd pre) \<and> list_all scheme_char pre);
          scheme2 = (if has_scheme then map ascii_lower pre else scheme1);
          url2 = (if has_scheme then drop (Suc (length pre)) url1 else url1);
          has_netloc = (take 2 url2 = lit ''//'');
          netloc = (if has_netloc then takeWhile (\<lambda>c. \<not> netloc_end c) (drop 2 url2) else []);
          url3 = (if has_netloc then dropWhile (\<lambda>c. \<not> netloc_end c) (drop 2 url2) else url2);
          url4 = takeWhile (\<lambda>c. c \<noteq> 35) url3;
          fragment = drop 1 (dropWhile (\<lambda>c. c \<noteq> 35) url3);
          url5 = takeWhile (\<lambda>c. c \<noteq> 63) url4;
          query = drop 1 (dropWhile (\<lambda>c. c \<noteq> 63) url4)
      in if (91 \<in> set netloc) \<noteq> (93 \<in> set netloc) then Inl ValueError
         else if (91 \<in> set netloc \<or> \<not> list_all is_ascii netloc) \<and> netloc_rejected P netloc
         then Inl ValueError
         else Inr (scheme2, netloc, url5, query, fragment))"

text \<open>\<open>_splitparams\<close>: the parameters follow the first semicolon (59) of the last segment.\<close>

definition splitparams :: "ustr \<Rightarrow> ustr \<times> ustr" where
  "splitparams url =
     (let last_segment = rev (takeWhile (\<lambda>c. c \<noteq> 47) (rev url));
          before = take (length url - length last_segment) url
      in (before @ takeWhile (\<lambda>c. c \<noteq> 59) last_segment,
          drop 1 (dropWhile (\<lambda>c. c \<noteq> 59) last_segment)))"

definition urlparse :: "platform \<Rightarrow> ustr \<Rightarrow> ustr \<Rightarrow> exception + (ustr \<times> ustr \<times> ustr \<times> ustr \<times> ustr \<times> ustr)" where
  "urlparse P url0 scheme0 =
     (case urlsplit P url0 scheme0 of
        Inl e \<Rightarrow> Inl e
      | Inr (scheme, netloc, url, query, fragment) \<Rightarrow>
          if scheme \<in> set uses_params \<and> 59 \<in> set url
          then Inr (scheme, netloc, fst (splitparams url), snd (splitparams url), query, fragment)
          else Inr (scheme, netloc, url, [], query, fragment))"

definition urlunsplit :: "ustr \<times> ustr \<times> ustr \<times> ustr \<times> ustr \<Rightarrow> ustr" where
  "urlunsplit components =
     (case components of (scheme, netloc, url, query, fragment) \<Rightarrow>
        (let url1 = (if netloc \<noteq> [] \<or> (scheme \<noteq> [] \<and> scheme \<in> set uses_netloc) \<or> take 2 url = lit ''//''
                     then lit ''//'' @ netloc @ (if url \<noteq> [] \<and> take 1 url \<noteq> lit ''/'' then lit ''/'' @ url else url)
                     else url);
             url2 = (if scheme \<noteq> [] then scheme @ lit '':'' @ url1 else url1);
             url3 = (if query \<noteq> [] then url2 @ lit ''?'' @ query else url2)
         in if fragment \<noteq> [] then url3 @ lit ''#'' @ fragment else url3))"

definition urlunparse :: "ustr \<times> ustr \<times> ustr \<times> ustr \<times> ustr \<times> ustr \<Rightarrow> ustr" where
  "urlunparse components =
     (case components of (scheme, netloc, url, params, query, fragment) \<Rightarrow>
        urlunsplit (scheme, netloc, (if params \<noteq> [] then url @ lit '';'' @ params else url),
                    query, fragment))"

text \<open>The middle segments of a joined path that are empty are dropped.\<close>

fun drop_empty_middle :: "ustr list \<Rightarrow> ustr list" where
  "drop_empty_middle (a # b # rest) = a # filter (\<lambda>seg. seg \<noteq> []) (butlast (b # rest)) @ [last (b # rest)]"
| "drop_empty_middle segments = segments"

definition resolve_segments :: "ustr list \<Rightarrow> ustr list" where
  "resolve_segments segments =
     foldl (\<lambda>resolved_path seg.
              if seg = lit ''..'' then butlast resolved_path
              else if seg = lit ''.'' then resolved_path
              else resolved_path @ [seg]) [] segments"

definition urljoin :: "platform \<Rightarrow> ustr \<Rightarrow> ustr \<Rightarrow> exception + ustr" where
  "urljoin P base url =
     (if base = [] then Inr url
      else if url = [] then Inr base
      else
        case urlparse P base [] of
          Inl e \<Rightarrow> Inl e
        | Inr (bscheme, bnetloc, bpath, bparams, bquery, bfragment) \<Rightarrow>
           (case urlparse P url bscheme of
              Inl e \<Rightarrow> Inl e
            | Inr (scheme, netloc0, path0, params0, query0, fragment) \<Rightarrow>
                if scheme \<noteq> bscheme \<or> scheme \<notin> set uses_relative then Inr url
                else if scheme \<in> set uses_netloc \<and> netloc0 \<noteq> []
                then Inr (urlunparse (scheme, netloc0, path0, params0, query0, fragment))
                else
                  (let netloc = (if scheme \<in> set uses_netloc then bnetloc else netloc0) in
                   if path0 = [] \<and> params0 = []
                   then Inr (urlunparse (scheme, netloc, bpath, bparams,
                                (if query0 = [] then bquery else query0), fragment))
                   else
                     (let base_parts0 = str_split 47 bpath;
                          base_parts = (if last base_parts0 \<noteq> [] then butlast base_parts0 else base_parts0);
                          segments = (if take 1 path0 = lit ''/'' then str_split 47 path0
                                      else drop_empty_middle (base_parts @ str_split 47 path0));
                          resolved0 = resolve_segments segments;
                          resolved_path = (if last segments = lit ''.'' \<or> last segments = lit ''..''
                                           then resolved0 @ [[]] else resolved0);
                          joined = str_join (lit ''/'') resolved_path
                      in Inr (urlunparse (scheme, netloc, (if joined = [] then lit ''/'' else joined),
                                params0, query0, fragment))))))"

section \<open>The pacer\<close>

text \<open>
  \<open>average_ms / 2\<close> is a division of integers with a float for result: the quotient
  rounded to the nearest double, ties to even, and \<open>OverflowError\<close> when that is beyond
  the doubles. \<open>round_to_double n\<close> is the double nearest to the natural \<open>n\<close>: its
  53 leading bits, rounded.
\<close>

definition round_to_double :: "nat \<Rightarrow> nat" where
  "round_to_double n =
     (let L = floorlog 2 n in
      if L \<le> 53 then n
      else
        (let s = L - 53; q = n div 2 ^ s; r = n mod 2 ^ s; h = 2 ^ (s - 1)
         in (if r > h \<or> (r = h \<and> odd q) then q + 1 else q) * 2 ^ s))"

text \<open>\<open>math.floor(average_ms / 2)\<close>.\<close>

definition floor_half :: "int \<Rightarrow> exception + int" where
  "floor_half a =
     (let m = round_to_double (nat \<bar>a\<bar>) in
      if m \<ge> 2 ^ 1025 then Inl OverflowError
      else Inr ((if a < 0 then - int m else int m) div 2))"

text \<open>
  \<open>random.randrange(start, stop)\<close>: \<open>start + _randbelow(width)\<close>, where the generator
  picks a value below \<open>width\<close>; \<open>draw\<close> is what the generator yields, brought below
  \<open>width\<close>. An empty range is a \<open>ValueError\<close>.
\<close>

definition randrange :: "int \<Rightarrow> int \<Rightarrow> nat \<Rightarrow> exception + int" where
  "randrange start stop draw =
     (let width = stop - start in
      if width > 0 then Inr (start + int (draw mod nat width)) else Inl ValueError)"

text \<open>
  \<open>time.sleep\<close> of so many milliseconds (the source passes the seconds, the
  milliseconds divided by 1000, a division that stays within the floats after
  \<open>average_ms / 2\<close> has): a negative length is a \<open>ValueError\<close>, a length that
  does not fit 64-bit signed nanoseconds an \<open>OverflowError\<close>, and the operating
  system may refuse a sleep.
\<close>

definition time_sleep :: "platform \<Rightarrow> int \<Rightarrow> world \<Rightarrow> (exception + unit) \<times> world" where
  "time_sleep P ms w =
     (if ms < 0 then (Inl ValueError, w)
      else if ms * 10 ^ 6 \<ge> 2 ^ 63 then (Inl OverflowError, w)
      else if sleep_refused P ms then (Inl OSError, w)
      else (Inr (), w\<lparr>slept_ms := slept_ms w @ [ms]\<rparr>))"

definition delay :: "platform \<Rightarrow> int \<Rightarrow> nat \<Rightarrow> world \<Rightarrow> (exception + unit) \<times> world" where
  "delay P average_ms draw w =
     (case floor_half average_ms of
        Inl e \<Rightarrow> (Inl e, w)
      | Inr deviation_ms \<Rightarrow>
          (case randrange (average_ms - deviation_ms) (average_ms + deviation_ms) draw of
             Inl e \<Rightarrow> (Inl e, w)
           | Inr rand_ms \<Rightarrow> time_sleep P rand_ms (logmsg DEBUG ''Delay for: %s ms'' w)))"

section \<open>One page\<close>

definition extract_page :: "platform \<Rightarrow> page \<Rightarrow> exception + extraction" where
  "extract_page P pg =
     (case title_matches pg of
        [] \<Rightarrow> Inl IndexError
      | ttl # _ \<Rightarrow>
          (case contents pg of
             [] \<Rightarrow> Inl IndexError
           | first # _ \<Rightarrow>
               (let firstline = strip (lower P (text_content first));
                    ascii_content = normalize_nodes P (contents pg)
                in Inr \<lparr> title = ttl,
                         filename = derive_filename P ttl,
                         content_firstline = firstline,
                         final_content = reconcile_heading P ttl firstline ascii_content \<rparr>)))"

text \<open>The configuration of a run, as \<open>main\<close> reads it.\<close>

record config =
  basedir :: ustr
  serie_id :: ustr
  serie_starturl :: ustr
  serie_combine_flag :: bool
  src_baseurl :: ustr
  request_delay_ms :: int

text \<open>
  The answer to a request: the status, and the document the parser makes of the body
  (or the exception it raises). The web is what \<open>requests.get\<close> gives for each URL, an
  exception included.
\<close>

record response =
  status_code :: int
  document :: "exception + page"

type_synonym web = "ustr \<Rightarrow> exception + response"

definition STATUS_CODE_OK :: int where
  "STATUS_CODE_OK = 200"

definition output_path :: "config \<Rightarrow> ustr \<Rightarrow> ustr" where
  "output_path cf name = basedir cf @ lit ''/'' @ serie_id cf @ lit ''/'' @ name @ lit ''.txt''"

text \<open>\<open># Write content to file\<close>: the chapter's own file, then the combined file.\<close>

definition write_page :: "platform \<Rightarrow> config \<Rightarrow> extraction \<Rightarrow> world \<Rightarrow> (exception + unit) \<times> world" where
  "write_page P cf ex w =
     (case write_content P (output_path cf (filename ex)) (final_content ex) w of
        (Inl e, w1) \<Rightarrow> (Inl e, w1)
      | (Inr u, w1) \<Rightarrow>
          if serie_combine_flag cf
          then append_content P (output_path cf (serie_id cf)) (final_content ex @ linesep P) w1
          else (Inr (), w1))"

definition end_of_chapters :: exception where
  "end_of_chapters = SystemExit (ExitStr ''End of chapters reached'')"

text \<open>\<open># Find next url\<close>: the exception that ends the loop, or the next URL after the delay.\<close>

definition find_next_url :: "platform \<Rightarrow> config \<Rightarrow> nat \<Rightarrow> ustr list \<Rightarrow> world \<Rightarrow> (exception + ustr) \<times> world" where
  "find_next_url P cf draw relative_nexturl_matches w =
     (case relative_nexturl_matches of
        [] \<Rightarrow> (Inl end_of_chapters,
               logmsg INFO ''Next URL (xpath) is invalid. End of chapters is reached.'' w)
      | m # _ \<Rightarrow>
          (let relative_nexturl = strip m;
               w1 = logmsg DEBUG ''Next URL (xpath): %s'' w
           in if startswith relative_nexturl (lit ''/'') \<or> startswith relative_nexturl (src_baseurl cf)
              then
                (case urljoin P (src_baseurl cf) relative_nexturl of
                   Inl e \<Rightarrow> (Inl e, w1)
                 | Inr next_url \<Rightarrow>
                     (case delay P (request_delay_ms cf) draw
                             (logmsg DEBUG ''Next URL (normalized): %s'' w1) of
                        (Inl e, w2) \<Rightarrow> (Inl e, w2)
                      | (Inr u, w2) \<Rightarrow> (Inr next_url, w2)))
              else (Inl end_of_chapters,
                    logmsg INFO ''Next URL (xpath) is invalid. End of chapters is reached.'' w1)))"

text \<open>
  The body of the \<open>while\<close> loop: the exception raised in it, or the URL of the next turn.
\<close>

definition iteration :: "platform \<Rightarrow> config \<Rightarrow> web \<Rightarrow> nat \<Rightarrow> ustr \<Rightarrow> world \<Rightarrow> (exception + ustr) \<times> world" where
  "iteration P cf net draw url w =
     (let w1 = (logmsg INFO ''Fetch URL: %s'' w)\<lparr>requested := requested w @ [url]\<rparr> in
      case net url of
        Inl e \<Rightarrow> (Inl e, w1)
      | Inr resp \<Rightarrow>
          if status_code resp \<noteq> STATUS_CODE_OK
          then (Inl (RequestException ''Bad page status code'' (status_code resp)),
                logmsg ERROR ''Page status: %s %s'' w1)
          else
            (let w2 = logmsg DEBUG ''Parsing HTML document'' w1 in
             case document resp of
               Inl e \<Rightarrow> (Inl e, w2)
             | Inr pg \<Rightarrow>
                 (let w3 = logmsg DEBUG ''Filename: %s'' (logmsg DEBUG ''Title: %s'' w2) in
                  case extract_page P pg of
                    Inl e \<Rightarrow> (Inl e, if title_matches pg = [] then w2 else w3)
                  | Inr ex \<Rightarrow>
                      (case write_page P cf ex w3 of
                         (Inl e, w4) \<Rightarrow> (Inl e, w4)
                       | (Inr u, w4) \<Rightarrow> find_next_url P cf draw (nexturl_matches pg) w4))))"

text \<open>
  The loop \<open>while url is not None\<close>. It ends by an exception only; \<open>None\<close> is a loop
  that is still running when the fuel is spent. \<open>rng i\<close> is the generator's draw in
  turn \<open>i\<close>.
\<close>

fun crawl :: "nat \<Rightarrow> platform \<Rightarrow> config \<Rightarrow> web \<Rightarrow> (nat \<Rightarrow> nat) \<Rightarrow> nat \<Rightarrow> ustr \<Rightarrow> world \<Rightarrow> exception option \<times> world" where
  "crawl 0 P cf net rng i url w = (None, w)"
| "crawl (Suc fuel) P cf net rng i url w =
     (case iteration P cf net (rng i) url w of
        (Inl e, w') \<Rightarrow> (Some e, w')
      | (Inr next_url, w') \<Rightarrow> crawl fuel P cf net rng (Suc i) next_url w')"

definition main :: "nat \<Rightarrow> platform \<Rightarrow> config \<Rightarrow> web \<Rightarrow> (nat \<Rightarrow> nat) \<Rightarrow> world \<Rightarrow> exception option \<times> world" where
  "main fuel P cf net rng w =
     (if \<not> contains (lower P (src_baseurl cf)) (lit ''://'')
      then (Some (SystemError ''source baseurl configuration missing protocol''),
            logmsg ERROR ''source [%s] baseurl [%s] is missing url protocol'' w)
      else crawl fuel P cf net rng 0 (serie_starturl cf)
             (logmsg DEBUG ''Finished loading configuration'' w))"

subsection \<open>A small site, for the examples\<close>

definition posix :: platform where
  "posix = \<lparr> linesep = [10],
             unidecode_table = (\<lambda>c. if c = 233 then lit ''e'' else if c = 201 then lit ''E'' else []),
             lower_nonascii = map (\<lambda>c. if c = 201 then 233 else ascii_lower c),
             isalnum_nonascii = (\<lambda>c. c = 233 \<or> c = 201),
             netloc_rejected = (\<lambda>n. False),
             sleep_refused = (\<lambda>ms. False) \<rparr>"

definition example_config :: config where
  "example_config = \<lparr> basedir = lit ''out'', serie_id = lit ''s1'',
       serie_starturl = lit ''https://example.com/novel/ch1'', serie_combine_flag = True,
       src_baseurl = lit ''https://example.com/novel/'', request_delay_ms = 1000 \<rparr>"

definition empty_world :: world where
  "empty_world = \<lparr> fsroot = Dir Map.empty, cwd = [], logged = [], requested = [], slept_ms = [] \<rparr>"

definition chapter_one :: page where
  "chapter_one = \<lparr> title_matches = [lit ''Chapter One''],
       contents = [Text (lit ''chapter one: the beginning...''), Text (lit ''It was dark.'')],
       nexturl_matches = [lit '' /ch2 ''] \<rparr>"

definition new_dawn :: page where
  "new_dawn = \<lparr> title_matches = [lit ''A New Dawn''],
       contents = [Element [Text (lit ''The sun ''), Text (lit ''rose slowly'')]],
       nexturl_matches = [lit ''javascript:void(0)''] \<rparr>"

text \<open>A page with a title outside ASCII (201 and 233 are E and e with an acute accent).\<close>

definition ete :: page where
  "ete = \<lparr> title_matches = [[201, 116, 233]],
       contents = [Text (lit ''Il fait chaud.'')],
       nexturl_matches = [] \<rparr>"

definition example_web :: web where
  "example_web url =
     (if url = lit ''https://example.com/novel/ch1''
      then Inr \<lparr> status_code = 200, document = Inr chapter_one \<rparr>
      else if url = lit ''https://example.com/ch2''
      then Inr \<lparr> status_code = 200, document = Inr new_dawn \<rparr>
      else if url = lit ''https://example.com/novel/ete''
      then Inr \<lparr> status_code = 200, document = Inr ete \<rparr>
      else Inr \<lparr> status_code = 404, document = Inl ParserError \<rparr>)"

text \<open>A world in which the file of the page \<open>new_dawn\<close> is already there.\<close>

definition used_world :: world where
  "used_world = \<lparr> fsroot = Dir [lit ''out'' \<mapsto> Dir [lit ''s1'' \<mapsto>
                       Dir [lit ''A_New_Dawn.txt'' \<mapsto> File (lit ''kept'')]]],
                   cwd = [], logged = [], requested = [], slept_ms = [] \<rparr>"

text \<open>
  Two worlds for a path with a \<open>..\<close> part: one with the file beside a directory that
  is not there yet, one in which a regular file has the name of that directory.
\<close>

definition flat_world :: world where
  "flat_world = \<lparr> fsroot = Dir [lit ''A_New_Dawn.txt'' \<mapsto> File (lit ''kept'')],
                   cwd = [], logged = [], requested = [], slept_ms = [] \<rparr>"

definition blocked_world :: world where
  "blocked_world = \<lparr> fsroot = Dir [lit ''A_New_Dawn.txt'' \<mapsto> File (lit ''kept''),
                                     lit ''out'' \<mapsto> File []],
                      cwd = [], logged = [], requested = [], slept_ms = [] \<rparr>"

section \<open>The filename is a slug\<close>

lemma underscore_not_space: "\<not> is_space 95"
  by (simp add: is_space_def)

lemma underscore_word: "is_word P 95"
  by (simp add: is_word_def)

lemma sub_underscores_first: "sub_underscores s = x # r \<Longrightarrow> \<exists>cs. s = x # cs"
  by (cases s) (auto split: if_splits)

lemma dropWhile_us_first: "dropWhile (\<lambda>d. d = (95::nat)) cs = x # r \<Longrightarrow> x \<noteq> 95"
  using hd_dropWhile [of "\<lambda>d. d = (95::nat)" cs] by auto

lemma sub_underscores_no_adjacent: "no_adjacent_underscores (sub_underscores s)"
proof (induction s rule: sub_underscores.induct)
  case 1
  show ?case by simp
next
  case (2 c cs)
  show ?case
  proof (cases "c = 95")
    case True
    let ?r = "sub_underscores (dropWhile (\<lambda>d. d = 95) cs)"
    have ih: "no_adjacent_underscores ?r" using 2(1) True by simp
    show ?thesis
    proof (cases ?r)
      case Nil
      with True show ?thesis by simp
    next
      case (Cons x r)
      then obtain ds where "dropWhile (\<lambda>d. d = 95) cs = x # ds"
        using sub_underscores_first by blast
      then have "x \<noteq> 95" by (rule dropWhile_us_first)
      with True Cons ih show ?thesis by simp
    qed
  next
    case False
    have ih: "no_adjacent_underscores (sub_underscores cs)" using 2(2) False by simp
    show ?thesis
    proof (cases "sub_underscores cs")
      case Nil
      with False show ?thesis by simp
    next
      case (Cons x r)
      with False ih show ?thesis by simp
    qed
  qed
qed

lemma no_adjacent_not_sublist: "no_adjacent_underscores s \<Longrightarrow> \<not> sublist [95, 95] s"
  by (induction s rule: no_adjacent_underscores.induct) (auto simp: sublist_Cons_right)

lemma sub_underscores_subset: "set (sub_underscores s) \<subseteq> set s"
proof (induction s rule: sub_underscores.induct)
  case 1
  show ?case by simp
next
  case (2 c cs)
  have "set (dropWhile (\<lambda>d. d = 95) cs) \<subseteq> set cs" by (rule set_dropWhileD [THEN subsetI])
  with 2 show ?case by (cases "c = 95") auto
qed

lemma sub_space_nonword_chars:
  "x \<in> set (sub_space_nonword P s) \<Longrightarrow> \<not> is_space x \<and> is_word P x"
proof (induction P s rule: sub_space_nonword.induct)
  case (1 P)
  then show ?case by simp
next
  case (2 P c cs)
  then show ?case
    by (auto simp: underscore_not_space underscore_word split: if_splits)
qed

lemma derive_filename_chars:
  "x \<in> set (derive_filename P t) \<Longrightarrow> \<not> is_space x \<and> is_word P x"
  using sub_underscores_subset sub_space_nonword_chars
  unfolding derive_filename_def by blast

lemma extract_page_fields:
  assumes "extract_page P pg = Inr e"
  shows "\<exists>ttl ts first ns. title_matches pg = ttl # ts \<and> contents pg = first # ns \<and>
           title e = ttl \<and> filename e = derive_filename P ttl \<and>
           content_firstline e = strip (lower P (text_content first)) \<and>
           final_content e = reconcile_heading P ttl (content_firstline e) (normalize_nodes P (contents pg))"
  using assms unfolding extract_page_def
  by (auto simp: Let_def split: list.splits)

text \<open>
  C6. The filename of a page is a function of its title alone (two pages with the same
  title get the same filename, whatever else they hold), and for every title the
  filename has no two underscores in a row and no whitespace character.
\<close>

theorem filename_deterministic_slug:
  "(\<forall>pg e. extract_page P pg = Inr e \<longrightarrow> filename e = derive_filename P (title e)) \<and>
   \<not> contains (derive_filename P t) (lit ''__'') \<and>
   (\<forall>c \<in> set (derive_filename P t). \<not> is_space c)"
proof (intro conjI allI impI ballI)
  fix pg e
  assume "extract_page P pg = Inr e"
  then show "filename e = derive_filename P (title e)"
    using extract_page_fields by fastforce
next
  have "no_adjacent_underscores (derive_filename P t)"
    unfolding derive_filename_def by (rule sub_underscores_no_adjacent)
  then have "\<not> sublist [95, 95] (derive_filename P t)"
    by (rule no_adjacent_not_sublist)
  then show "\<not> contains (derive_filename P t) (lit ''__'')"
    by (simp add: contains_def lit_def)
next
  fix c
  assume "c \<in> set (derive_filename P t)"
  then show "\<not> is_space c"
    using derive_filename_chars by blast
qed

theorem filename_deterministic_slug_witness:
  "extract_page posix new_dawn \<noteq> Inl IndexError \<and>
   filename (projr (extract_page posix new_dawn)) = lit ''A_New_Dawn'' \<and>
   derive_filename posix (lit ''  a  b--c !d_ _e '') = lit ''_a_b_c_d_e_'' \<and>
   \<not> contains (derive_filename posix (lit ''  a  b--c !d_ _e '')) (lit ''__'') \<and>
   list_all (\<lambda>c. \<not> is_space c) (derive_filename posix (lit ''  a  b--c !d_ _e ''))"
proof -
  have ex: "\<exists>e. extract_page posix new_dawn = Inr e"
    by (simp add: extract_page_def new_dawn_def Let_def)
  then obtain e where e: "extract_page posix new_dawn = Inr e" by blast
  have t: "title e = lit ''A New Dawn''"
    using e by (auto simp: extract_page_def new_dawn_def Let_def)
  have d: "derive_filename posix (lit ''A New Dawn'') = lit ''A_New_Dawn''"
    by (simp add: derive_filename_def unidecode_def lit_def posix_def is_space_def
        is_word_def ascii_alnum_def)
  have d2: "derive_filename posix (lit ''  a  b--c !d_ _e '') = lit ''_a_b_c_d_e_''"
    by (simp add: derive_filename_def unidecode_def lit_def posix_def is_space_def
        is_word_def ascii_alnum_def)
  note th = filename_deterministic_slug [of posix "lit ''  a  b--c !d_ _e ''"]
  from th e t d have "filename e = lit ''A_New_Dawn''" by simp
  with e d2 th show ?thesis by (simp add: list_all_iff)
qed

section \<open>The normaliser does the four steps of the specification\<close>

lemma replace_n_Cons:
  "replace [92, 110] [10] (a # b # s) =
     (if a = 92 \<and> b = 110 then 10 # replace [92, 110] [10] s
      else a # replace [92, 110] [10] (b # s))"
  by simp

lemma replace_r_Cons:
  "replace [92, 114] [13] (a # s) =
     (if a = 92 \<and> (\<exists>t. s = 114 # t) then 13 # replace [92, 114] [13] (tl s)
      else a # replace [92, 114] [13] s)"
  by (cases s) auto

lemma replace_n_hd:
  assumes h: "replace [92, 110] [10] s = 114 # t"
  shows "\<exists>t'. s = 114 # t'"
proof (cases s)
  case Nil
  with h show ?thesis by simp
next
  case (Cons a s')
  show ?thesis
  proof (cases s')
    case Nil
    with Cons h show ?thesis by simp
  next
    case c2: (Cons b s'')
    with Cons h show ?thesis by (auto split: if_splits)
  qed
qed

lemma replace_twice_unescape:
  "replace [92, 114] [13] (replace [92, 110] [10] s) = unescape s"
proof (induction s rule: unescape.induct)
  case (1 a b s)
  show ?case
  proof (cases "a = 92 \<and> b = 110")
    case True
    with 1 show ?thesis by (simp del: replace.simps add: replace_n_Cons replace_r_Cons)
  next
    case nb: False
    show ?thesis
    proof (cases "a = 92 \<and> b = 114")
      case True
      with 1 show ?thesis
        by (cases s) (simp_all)
    next
      case False
      have ih: "replace [92, 114] [13] (replace [92, 110] [10] (b # s)) = unescape (b # s)"
        using 1(3) nb False by simp
      have nh: "\<not> (a = 92 \<and> (\<exists>t. replace [92, 110] [10] (b # s) = 114 # t))"
      proof
        assume "a = 92 \<and> (\<exists>t. replace [92, 110] [10] (b # s) = 114 # t)"
        then obtain t where "a = 92" "replace [92, 110] [10] (b # s) = 114 # t" by blast
        then have "b = 114" using replace_n_hd by blast
        with \<open>a = 92\<close> False show False by simp
      qed
      have "replace [92, 110] [10] (a # b # s) = a # replace [92, 110] [10] (b # s)"
        using nb by (simp only: replace_n_Cons if_False)
      then have "replace [92, 114] [13] (replace [92, 110] [10] (a # b # s))
          = a # replace [92, 114] [13] (replace [92, 110] [10] (b # s))"
        using nh by (simp only: replace_r_Cons if_False)
      with ih nb False show ?thesis by simp
    qed
  qed
qed simp_all

lemma join_paragraphs_concat:
  "join_paragraphs P acc ns = acc @ concat (map (\<lambda>n. text_content n @ linesep P) ns)"
  by (induction ns arbitrary: acc) simp_all

text \<open>
  C4. For every sequence of content nodes, the normaliser of the source (the loop that
  appends each node's text and a line separator, the two replacements one after the
  other, the transliteration, the strip) gives exactly the text of the four steps of the
  specification, applied in that order to the whole text.
\<close>

theorem normalize_four_steps:
  "normalize_nodes P nodes = normalize_spec P nodes"
  by (simp add: normalize_nodes_def normalize_spec_def join_paragraphs_concat replace_twice_unescape
      unidecode_def transliterate_def is_ascii_def strip_def trim_def)

theorem normalize_four_steps_witness:
  "normalize_nodes posix [Element [Text (lit ''  caf''), Text [233, 92, 110]], Text (lit ''ok '' @ [92, 114])]
     = lit ''cafe'' @ [10, 10] @ lit ''ok'' \<and>
   normalize_spec posix [Element [Text (lit ''  caf''), Text [233, 92, 110]], Text (lit ''ok '' @ [92, 114])]
     = lit ''cafe'' @ [10, 10] @ lit ''ok''"
proof -
  have "normalize_spec posix [Element [Text (lit ''  caf''), Text [233, 92, 110]], Text (lit ''ok '' @ [92, 114])]
     = lit ''cafe'' @ [10, 10] @ lit ''ok''"
    by (simp add: normalize_spec_def trim_def transliterate_def is_ascii_def posix_def lit_def
        is_space_def)
  then show ?thesis
    using normalize_four_steps [of posix
        "[Element [Text (lit ''  caf''), Text [233, 92, 110]], Text (lit ''ok '' @ [92, 114])]"]
    by simp
qed

section \<open>The heading\<close>

lemma chapter_one_extracted:
  "extract_page posix chapter_one =
     Inr \<lparr> title = lit ''Chapter One'', filename = lit ''Chapter_One'',
           content_firstline = lit ''chapter one: the beginning...'',
           final_content = lit ''## chapter one: the beginning...'' @ [10] @ lit ''It was dark.'' \<rparr>"
  by (simp add: extract_page_def chapter_one_def Let_def reconcile_heading_def normalize_nodes_def
      derive_filename_def unidecode_def strip_def lower_def startswith_def contains_def
      is_ascii_def ascii_lower_def is_space_def is_word_def ascii_alnum_def posix_def lit_def)

text \<open>
  C2, as the specification states it, fails: the first content line of the page
  \<open>chapter_one\<close> starts with the word chapter, and its final content does not start
  with the marker followed by the title.
\<close>

theorem heading_present_counterexample:
  "\<not> (\<forall>P pg e. extract_page P pg = Inr e \<and>
          (startswith (content_firstline e) (lit ''chapter'') \<or>
           contains (content_firstline e) (lower P (title e)))
        \<longrightarrow> startswith (final_content e) (lit ''## '' @ title e))"
proof
  assume h: "\<forall>P pg e. extract_page P pg = Inr e \<and>
          (startswith (content_firstline e) (lit ''chapter'') \<or>
           contains (content_firstline e) (lower P (title e)))
        \<longrightarrow> startswith (final_content e) (lit ''## '' @ title e)"
  let ?e = "\<lparr> title = lit ''Chapter One'', filename = lit ''Chapter_One'',
           content_firstline = lit ''chapter one: the beginning...'',
           final_content = lit ''## chapter one: the beginning...'' @ [10] @ lit ''It was dark.'' \<rparr>"
  have "startswith (content_firstline ?e) (lit ''chapter'')"
    by (simp add: startswith_def lit_def)
  with h chapter_one_extracted have "startswith (final_content ?e) (lit ''## '' @ title ?e)"
    by blast
  then show False
    by (simp add: startswith_def lit_def)
qed

text \<open>
  C2, amended. For every page whose first content line (the text of the first content
  node, lower-cased and stripped, before normalisation) starts with the word chapter or
  holds the lower-cased title, the final content is the normalised content with the
  marker alone before it: the title is not added, and the content is not altered.
\<close>

theorem heading_present_marker_only:
  assumes "extract_page P pg = Inr e"
    and "startswith (content_firstline e) (lit ''chapter'') \<or>
         contains (content_firstline e) (lower P (title e))"
  shows "content_firstline e = strip (lower P (text_content (hd (contents pg)))) \<and>
         title e = hd (title_matches pg) \<and>
         final_content e = lit ''## '' @ normalize_nodes P (contents pg)"
proof -
  from extract_page_fields [OF assms(1)] obtain ttl ts first ns where
    f: "title_matches pg = ttl # ts" "contents pg = first # ns" "title e = ttl"
       "content_firstline e = strip (lower P (text_content first))"
       "final_content e = reconcile_heading P ttl (content_firstline e) (normalize_nodes P (contents pg))"
    by blast
  with assms(2) show ?thesis
    by (simp add: reconcile_heading_def)
qed

theorem heading_present_marker_only_witness:
  "extract_page posix chapter_one \<noteq> Inl IndexError \<and>
   startswith (content_firstline (projr (extract_page posix chapter_one))) (lit ''chapter'') \<and>
   final_content (projr (extract_page posix chapter_one)) = lit ''## '' @ normalize_nodes posix (contents chapter_one) \<and>
   final_content (projr (extract_page posix chapter_one))
     = lit ''## chapter one: the beginning...'' @ [10] @ lit ''It was dark.''"
proof -
  let ?e = "projr (extract_page posix chapter_one)"
  have e: "extract_page posix chapter_one = Inr ?e"
    by (simp add: chapter_one_extracted)
  have s: "startswith (content_firstline ?e) (lit ''chapter'')"
    by (simp add: chapter_one_extracted startswith_def lit_def)
  from heading_present_marker_only [OF e disjI1 [OF s]]
  have "final_content ?e = lit ''## '' @ normalize_nodes posix (contents chapter_one)" by simp
  with e s show ?thesis
    by (simp add: chapter_one_extracted)
qed

text \<open>
  C3. Whatever the platform: a page with the title \<open>Chapter One\<close> whose first content
  line is \<open>chapter one: the beginning...\<close> gets the marker directly followed by the
  normalised content, with no title line; a page with the title \<open>A New Dawn\<close> whose
  first content line is \<open>the sun rose slowly\<close> gets the marker and the title, one
  line separator, and then the normalised content.
\<close>

theorem heading_two_examples:
  "(title_matches pg = lit ''Chapter One'' # ts \<and> contents pg = n # ns \<and>
    strip (lower P (text_content n)) = lit ''chapter one: the beginning...''
    \<longrightarrow> (\<exists>e. extract_page P pg = Inr e \<and>
              final_content e = lit ''## '' @ normalize_nodes P (contents pg))) \<and>
   (title_matches pg' = lit ''A New Dawn'' # ts' \<and> contents pg' = n' # ns' \<and>
    strip (lower P (text_content n')) = lit ''the sun rose slowly''
    \<longrightarrow> (\<exists>e. extract_page P pg' = Inr e \<and>
              final_content e = lit ''## A New Dawn'' @ linesep P @ normalize_nodes P (contents pg')))"
proof (intro conjI impI)
  assume h: "title_matches pg = lit ''Chapter One'' # ts \<and> contents pg = n # ns \<and>
    strip (lower P (text_content n)) = lit ''chapter one: the beginning...''"
  have "startswith (lit ''chapter one: the beginning...'') (lit ''chapter'')"
    by (simp add: startswith_def lit_def)
  with h show "\<exists>e. extract_page P pg = Inr e \<and>
      final_content e = lit ''## '' @ normalize_nodes P (contents pg)"
    by (simp add: extract_page_def Let_def reconcile_heading_def)
next
  assume h: "title_matches pg' = lit ''A New Dawn'' # ts' \<and> contents pg' = n' # ns' \<and>
    strip (lower P (text_content n')) = lit ''the sun rose slowly''"
  have a: "\<not> startswith (lit ''the sun rose slowly'') (lit ''chapter'')"
    by (simp add: startswith_def lit_def)
  have "lower P (lit ''A New Dawn'') = lit ''a new dawn''"
    by (simp add: lower_def lit_def is_ascii_def ascii_lower_def)
  moreover have "\<not> sublist (lit ''a new dawn'') (lit ''the sun rose slowly'')"
    by (simp add: lit_def sublist_Cons_right)
  ultimately have b: "\<not> contains (lit ''the sun rose slowly'') (lower P (lit ''A New Dawn''))"
    by (simp add: contains_def)
  have c: "lit ''## '' @ lit ''A New Dawn'' = lit ''## A New Dawn''"
    by (simp add: lit_def)
  from h a b show "\<exists>e. extract_page P pg' = Inr e \<and>
      final_content e = lit ''## A New Dawn'' @ linesep P @ normalize_nodes P (contents pg')"
    by (simp add: extract_page_def Let_def reconcile_heading_def c [symmetric])
qed

lemma new_dawn_normalized: "normalize_nodes posix (contents new_dawn) = lit ''The sun rose slowly''"
  by (simp add: new_dawn_def normalize_nodes_def Let_def unidecode_def strip_def is_space_def
      posix_def lit_def)

lemma chapter_one_normalized:
  "normalize_nodes posix (contents chapter_one) = lit ''chapter one: the beginning...'' @ [10] @ lit ''It was dark.''"
  by (simp add: chapter_one_def normalize_nodes_def Let_def unidecode_def strip_def is_space_def
      posix_def lit_def)

theorem heading_two_examples_witness:
  "(\<exists>e. extract_page posix chapter_one = Inr e \<and>
        final_content e = lit ''## chapter one: the beginning...'' @ [10] @ lit ''It was dark.'') \<and>
   (\<exists>e. extract_page posix new_dawn = Inr e \<and>
        final_content e = lit ''## A New Dawn'' @ [10] @ lit ''The sun rose slowly'')"
proof -
  have h1: "title_matches chapter_one = lit ''Chapter One'' # [] \<and>
      contents chapter_one = Text (lit ''chapter one: the beginning...'') # [Text (lit ''It was dark.'')] \<and>
      strip (lower posix (text_content (Text (lit ''chapter one: the beginning...''))))
        = lit ''chapter one: the beginning...''"
    by (simp add: chapter_one_def strip_def lower_def is_ascii_def ascii_lower_def is_space_def lit_def)
  have h2: "title_matches new_dawn = lit ''A New Dawn'' # [] \<and>
      contents new_dawn = Element [Text (lit ''The sun ''), Text (lit ''rose slowly'')] # [] \<and>
      strip (lower posix (text_content (Element [Text (lit ''The sun ''), Text (lit ''rose slowly'')])))
        = lit ''the sun rose slowly''"
    by (simp add: new_dawn_def strip_def lower_def is_ascii_def ascii_lower_def is_space_def lit_def)
  note th = heading_two_examples [of chapter_one "[]" "Text (lit ''chapter one: the beginning...'')"
      "[Text (lit ''It was dark.'')]" posix new_dawn "[]"
      "Element [Text (lit ''The sun ''), Text (lit ''rose slowly'')]" "[]"]
  from th h1 have a: "\<exists>e. extract_page posix chapter_one = Inr e \<and>
      final_content e = lit ''## '' @ normalize_nodes posix (contents chapter_one)"
    by blast
  from th h2 have b: "\<exists>e. extract_page posix new_dawn = Inr e \<and>
      final_content e = lit ''## A New Dawn'' @ linesep posix @ normalize_nodes posix (contents new_dawn)"
    by blast
  have l: "linesep posix = [10]" by (simp add: posix_def)
  have c: "lit ''## '' @ lit ''chapter one: the beginning...'' @ r
      = lit ''## chapter one: the beginning...'' @ r" for r
    by (simp add: lit_def)
  from a b show ?thesis
    by (simp add: new_dawn_normalized chapter_one_normalized l c)
qed

section \<open>What a written file holds\<close>

lemma replace_single:
  "replace [c] new s = concat (map (\<lambda>x. if x = c then new else [x]) s)"
  by (induction s) auto

lemma text_mode_prefix:
  "10 \<notin> set s \<Longrightarrow> text_mode P (s @ t) = s @ text_mode P t"
  by (induction s) (simp_all add: text_mode_def replace_single)

lemma fs_lookup_append:
  "fs_lookup n (xs @ ys) = (case fs_lookup n xs of None \<Rightarrow> None | Some k \<Rightarrow> fs_lookup k ys)"
  by (induction n xs rule: fs_lookup.induct) (simp_all split: option.splits)

lemma walk_append:
  "walk r s (ps @ qs) = (case walk r s ps of Inl e \<Rightarrow> Inl e | Inr loc \<Rightarrow> walk r loc qs)"
  by (induction ps arbitrary: s) (simp_all split: option.splits fsnode.splits)

lemma fs_set_lookup:
  "fs_lookup n loc = Some (Dir m) \<Longrightarrow> fs_lookup (fs_set n (loc @ [l]) new) (loc @ [l]) = Some new"
proof (induction loc arbitrary: n)
  case Nil
  then show ?case by simp
next
  case (Cons p ps)
  then obtain d k where "n = Dir d" "d p = Some k" "fs_lookup k ps = Some (Dir m)"
    by (cases n) (auto split: option.splits)
  with Cons.IH show ?case by simp
qed

text \<open>A directory that is not at or below the place that is set stays a directory.\<close>

lemma fs_set_dir_kept:
  "fs_lookup n here = Some (Dir m) \<Longrightarrow> \<not> prefix T here
   \<Longrightarrow> \<exists>m'. fs_lookup (fs_set n T new) here = Some (Dir m')"
proof (induction here arbitrary: n T)
  case Nil
  then show ?case by (cases T) simp_all
next
  case (Cons h hs)
  from Cons.prems(1) obtain d k where n: "n = Dir d" "d h = Some k" "fs_lookup k hs = Some (Dir m)"
    by (cases n) (auto split: option.splits)
  from Cons.prems(2) obtain t ts where T: "T = t # ts" by (cases T) simp_all
  show ?case
  proof (cases "t = h")
    case True
    with Cons.prems(2) T have "\<not> prefix ts hs" by simp
    from Cons.IH [OF n(3) this] n True T show ?thesis by simp
  next
    case False
    with n T show ?thesis by simp
  qed
qed

lemma fs_lookup_dir_above:
  assumes "fs_lookup n here = Some (Dir m)" and "prefix T here"
  shows "\<exists>d. fs_lookup n T = Some (Dir d)"
proof -
  from assms(2) obtain zs where "here = T @ zs" by (auto simp: prefix_def)
  with assms(1) obtain k where k: "fs_lookup n T = Some k" "fs_lookup k zs = Some (Dir m)"
    by (auto simp: fs_lookup_append split: option.splits)
  then show ?thesis by (cases k; cases zs) simp_all
qed

text \<open>Making or replacing a node that is not a directory leaves every walk as it was.\<close>

lemma walk_kept:
  "walk r s ps = Inr loc \<Longrightarrow> \<forall>d. fs_lookup r T \<noteq> Some (Dir d)
   \<Longrightarrow> walk (fs_set r T new) s ps = Inr loc"
proof (induction ps arbitrary: s)
  case Nil
  then show ?case by simp
next
  case (Cons p ps)
  from Cons.prems(1) obtain m where
    m: "fs_lookup r s = Some (Dir m)"
    and w: "walk r (if p = lit ''..'' then butlast s else s @ [p]) ps = Inr loc"
    by (auto split: option.splits fsnode.splits)
  from m Cons.prems(2) have "\<not> prefix T s"
    using fs_lookup_dir_above by blast
  from fs_set_dir_kept [OF m this] obtain m' where "fs_lookup (fs_set r T new) s = Some (Dir m')"
    by blast
  with Cons.IH [OF w Cons.prems(2)] show ?case by simp
qed

lemma open_write_stat:
  assumes "open_write f p r start = Inr r'"
  shows "\<exists>old. stat r' start (snd p) = Inr (File (f old))"
proof -
  let ?l = "last (snd p)"
  from assms have ne: "snd p \<noteq> []"
    by (auto simp: open_write_def split: if_splits)
  with assms obtain loc m old where
    w: "walk r start (butlast (snd p)) = Inr loc"
    and m: "fs_lookup r loc = Some (Dir m)"
    and l: "?l \<noteq> lit ''..''"
    and nd: "\<forall>d. m ?l \<noteq> Some (Dir d)"
    and r': "r' = fs_set r (loc @ [?l]) (File (f old))"
    by (auto simp: open_write_def split: sum.splits option.splits fsnode.splits if_splits)
  from m nd have n: "\<forall>d. fs_lookup r (loc @ [?l]) \<noteq> Some (Dir d)"
    by (auto simp: fs_lookup_append split: option.splits)
  from walk_kept [OF w n] r' have w': "walk r' start (butlast (snd p)) = Inr loc"
    by simp
  have "\<not> prefix (loc @ [?l]) loc" by (simp add: prefix_def)
  from fs_set_dir_kept [OF m this] r' obtain m' where m': "fs_lookup r' loc = Some (Dir m')"
    by blast
  from fs_set_lookup [OF m] r' have f: "fs_lookup r' (loc @ [?l]) = Some (File (f old))"
    by simp
  have "walk r' start (butlast (snd p) @ [?l]) = Inr (loc @ [?l])"
    using w' m' l by (simp add: walk_append)
  with ne f have "stat r' start (snd p) = Inr (File (f old))"
    by (simp add: stat_def)
  then show ?thesis ..
qed

lemma write_content_read_back:
  assumes "write_content P pathstr content w = (Inr (), w')"
  shows "read_text w' (Path pathstr) = Some (text_mode P content)"
proof -
  let ?p = "Path pathstr"
  from assms obtain w1 r where
    m: "mkdir_parents (parent ?p) w = (None, w1)"
    and f: "open_write (\<lambda>old. text_mode P content) ?p (fsroot w1) (start_at w1 ?p) = Inr r"
    and w': "w' = (logmsg DEBUG ''Write content: %s'' w1)\<lparr>fsroot := r\<rparr>"
    by (auto simp: write_content_def Let_def logmsg_def start_at_def
        split: prod.splits option.splits sum.splits if_splits)
  have "start_at w' ?p = start_at w1 ?p"
    using w' by (simp add: start_at_def logmsg_def)
  moreover have "fsroot w' = r" using w' by simp
  moreover from open_write_stat [OF f]
  have "stat r (start_at w1 ?p) (snd ?p) = Inr (File (text_mode P content))" by simp
  ultimately show ?thesis by (simp add: read_text_def)
qed

lemma unidecode_ascii:
  "(\<forall>c. list_all is_ascii (unidecode_table P c)) \<Longrightarrow> list_all is_ascii (unidecode P s)"
  by (induction s) (simp_all add: unidecode_def is_ascii_def)

lemma strip_subset: "set (strip s) \<subseteq> set s"
proof -
  have "set (strip s) = set (dropWhile is_space (rev (dropWhile is_space s)))"
    by (simp add: strip_def)
  also have "\<dots> \<subseteq> set (rev (dropWhile is_space s))"
    by (rule subsetI) (rule set_dropWhileD)
  also have "\<dots> \<subseteq> set s"
    by (auto dest: set_dropWhileD)
  finally show ?thesis .
qed

lemma normalize_ascii:
  assumes "\<forall>c. list_all is_ascii (unidecode_table P c)"
  shows "list_all is_ascii (normalize_nodes P nodes)"
proof -
  have "list_all is_ascii (unidecode P s)" for s
    using assms by (rule unidecode_ascii)
  then show ?thesis
    using strip_subset unfolding normalize_nodes_def Let_def list_all_iff by blast
qed

lemma ete_extracted:
  "extract_page posix ete =
     Inr \<lparr> title = [201, 116, 233], filename = lit ''Ete'',
           content_firstline = lit ''il fait chaud.'',
           final_content = lit ''## '' @ [201, 116, 233, 10] @ lit ''Il fait chaud.'' \<rparr>"
  by (simp add: extract_page_def ete_def Let_def reconcile_heading_def normalize_nodes_def
      derive_filename_def unidecode_def strip_def lower_def startswith_def contains_def
      is_ascii_def ascii_lower_def is_space_def is_word_def ascii_alnum_def posix_def lit_def
      sublist_Cons_right)

text \<open>
  C9. When the first content line neither starts with the word chapter nor holds the
  lower-cased title, the line put after the marker is the title as the query gave it,
  not its transliteration: the final content is the marker, the raw title, one line
  separator and the normalised content; a file written with it starts with the marker
  and the raw title (when the title has no newline of its own), while the normalised
  content is pure ASCII (when the replacement strings of the transliteration are). And
  there is such a page whose title, and so the start of its file, is not pure ASCII.
\<close>

theorem synthesized_heading_raw_title:
  "(extract_page P pg = Inr e \<and>
    \<not> startswith (content_firstline e) (lit ''chapter'') \<and>
    \<not> contains (content_firstline e) (lower P (title e))
    \<longrightarrow> title e = hd (title_matches pg) \<and>
        final_content e = lit ''## '' @ title e @ linesep P @ normalize_nodes P (contents pg) \<and>
        (10 \<notin> set (title e) \<longrightarrow>
           (\<forall>pathstr w w'. write_content P pathstr (final_content e) w = (Inr (), w') \<longrightarrow>
              (\<exists>rest. read_text w' (Path pathstr) = Some (lit ''## '' @ title e @ rest)))) \<and>
        ((\<forall>c. list_all is_ascii (unidecode_table P c)) \<longrightarrow>
           list_all is_ascii (normalize_nodes P (contents pg)))) \<and>
   (\<exists>pg e w'. extract_page posix pg = Inr e \<and>
        \<not> list_all is_ascii (title e) \<and>
        write_content posix (lit ''out/s1/'' @ filename e @ lit ''.txt'') (final_content e) empty_world
          = (Inr (), w') \<and>
        read_text w' (Path (lit ''out/s1/'' @ filename e @ lit ''.txt''))
          = Some (lit ''## '' @ title e @ linesep posix @ normalize_nodes posix (contents pg)) \<and>
        list_all is_ascii (normalize_nodes posix (contents pg)))"
proof (intro conjI impI)
  assume h: "extract_page P pg = Inr e \<and>
    \<not> startswith (content_firstline e) (lit ''chapter'') \<and>
    \<not> contains (content_firstline e) (lower P (title e))"
  from extract_page_fields [of P pg e] h obtain ttl ts first ns where
    f: "title_matches pg = ttl # ts" "contents pg = first # ns" "title e = ttl"
       "final_content e = reconcile_heading P ttl (content_firstline e) (normalize_nodes P (contents pg))"
    by blast
  from f show "title e = hd (title_matches pg)" by simp
  from f h show fc: "final_content e = lit ''## '' @ title e @ linesep P @ normalize_nodes P (contents pg)"
    by (simp add: reconcile_heading_def)
  show "\<forall>pathstr w w'. write_content P pathstr (final_content e) w = (Inr (), w') \<longrightarrow>
      (\<exists>rest. read_text w' (Path pathstr) = Some (lit ''## '' @ title e @ rest))"
    if nl: "10 \<notin> set (title e)"
  proof (intro allI impI)
    fix pathstr w w'
    assume "write_content P pathstr (final_content e) w = (Inr (), w')"
    then have "read_text w' (Path pathstr) = Some (text_mode P (final_content e))"
      by (rule write_content_read_back)
    moreover have "10 \<notin> set (lit ''## '' @ title e)"
      using nl by (simp add: lit_def)
    then have "text_mode P ((lit ''## '' @ title e) @ linesep P @ normalize_nodes P (contents pg))
        = (lit ''## '' @ title e) @ text_mode P (linesep P @ normalize_nodes P (contents pg))"
      by (rule text_mode_prefix)
    ultimately show "\<exists>rest. read_text w' (Path pathstr) = Some (lit ''## '' @ title e @ rest)"
      using fc by simp
  qed
  show "list_all is_ascii (normalize_nodes P (contents pg))"
    if "\<forall>c. list_all is_ascii (unidecode_table P c)"
    using that by (rule normalize_ascii)
next
  let ?e = "\<lparr> title = [201, 116, 233], filename = lit ''Ete'',
           content_firstline = lit ''il fait chaud.'',
           final_content = lit ''## '' @ [201, 116, 233, 10] @ lit ''Il fait chaud.'' \<rparr>"
  have n: "normalize_nodes posix (contents ete) = lit ''Il fait chaud.''"
    by (simp add: ete_def normalize_nodes_def Let_def unidecode_def strip_def is_space_def
        posix_def lit_def)
  have w: "fst (write_content posix (lit ''out/s1/'' @ filename ?e @ lit ''.txt'') (final_content ?e) empty_world)
      = Inr ()"
    by (simp add: write_content_def Let_def Path_def parent_def mkdir_parents_def start_at_def
        path_exists_def stat_def is_dir_def os_mkdir_def open_write_def empty_world_def
        logmsg_def startswith_def lit_def text_mode_def)
  then obtain w' where w': "write_content posix (lit ''out/s1/'' @ filename ?e @ lit ''.txt'')
      (final_content ?e) empty_world = (Inr (), w')"
    by (metis prod.collapse)
  have tm: "text_mode posix (final_content ?e) = final_content ?e"
    by (simp add: text_mode_def replace_single posix_def lit_def)
  have "read_text w' (Path (lit ''out/s1/'' @ filename ?e @ lit ''.txt''))
      = Some (lit ''## '' @ title ?e @ linesep posix @ normalize_nodes posix (contents ete))"
    using write_content_read_back [OF w'] tm n by (simp add: posix_def)
  moreover have "\<not> list_all is_ascii (title ?e)"
    by (simp add: is_ascii_def)
  moreover have "list_all is_ascii (normalize_nodes posix (contents ete))"
    by (simp add: n lit_def is_ascii_def)
  ultimately show "\<exists>pg e w'. extract_page posix pg = Inr e \<and>
        \<not> list_all is_ascii (title e) \<and>
        write_content posix (lit ''out/s1/'' @ filename e @ lit ''.txt'') (final_content e) empty_world
          = (Inr (), w') \<and>
        read_text w' (Path (lit ''out/s1/'' @ filename e @ lit ''.txt''))
          = Some (lit ''## '' @ title e @ linesep posix @ normalize_nodes posix (contents pg)) \<and>
        list_all is_ascii (normalize_nodes posix (contents pg))"
    using ete_extracted w' by blast
qed

theorem synthesized_heading_raw_title_witness:
  "extract_page posix ete \<noteq> Inl IndexError \<and>
   title (projr (extract_page posix ete)) = [201, 116, 233] \<and>
   final_content (projr (extract_page posix ete))
     = lit ''## '' @ [201, 116, 233] @ [10] @ lit ''Il fait chaud.'' \<and>
   list_all is_ascii (normalize_nodes posix (contents ete))"
proof -
  let ?e = "projr (extract_page posix ete)"
  have e: "extract_page posix ete = Inr ?e"
    by (simp add: ete_extracted)
  have fl: "content_firstline ?e = lit ''il fait chaud.''" and tt: "title ?e = [201, 116, 233]"
    by (simp_all add: ete_extracted)
  have a: "\<not> startswith (content_firstline ?e) (lit ''chapter'')"
    unfolding fl by (simp add: startswith_def lit_def)
  have b: "\<not> contains (content_firstline ?e) (lower posix (title ?e))"
    unfolding fl tt
    by (simp add: contains_def lower_def is_ascii_def posix_def lit_def sublist_Cons_right)
  have t: "\<forall>c. list_all is_ascii (unidecode_table posix c)"
    by (simp add: posix_def is_ascii_def lit_def)
  have n: "normalize_nodes posix (contents ete) = lit ''Il fait chaud.''"
    by (simp add: ete_def normalize_nodes_def Let_def unidecode_def strip_def is_space_def
        posix_def lit_def)
  from synthesized_heading_raw_title [of posix ete ?e] e a b t
  have "final_content ?e = lit ''## '' @ title ?e @ linesep posix @ normalize_nodes posix (contents ete)
      \<and> list_all is_ascii (normalize_nodes posix (contents ete))"
    by blast
  moreover have "linesep posix = [10]" by (simp add: posix_def)
  moreover have "extract_page posix ete \<noteq> Inl IndexError" by (simp add: ete_extracted)
  ultimately show ?thesis
    using n tt by simp
qed

section \<open>The next link\<close>

lemma urljoin_ch2:
  "urljoin P (lit ''https://example.com/novel/'') (lit ''/ch2'') = Inr (lit ''https://example.com/ch2'')"
  by (simp add: urljoin_def urlparse_def urlsplit_def urlunparse_def urlunsplit_def
      resolve_segments_def uses_relative_def uses_netloc_def uses_params_def
      unsafe_url_char_def c0_or_space_def netloc_end_def ascii_alpha_def scheme_char_def
      ascii_alnum_def ascii_lower_def is_ascii_def lit_def Let_def)

lemma logmsg_frame [simp]:
  "fsroot (logmsg l m w) = fsroot w" "cwd (logmsg l m w) = cwd w"
  "requested (logmsg l m w) = requested w" "slept_ms (logmsg l m w) = slept_ms w"
  by (simp_all add: logmsg_def)

lemma write_content_requested:
  "write_content P pathstr content w = (r, w') \<Longrightarrow> requested w' = requested w"
  by (auto simp: write_content_def mkdir_parents_def Let_def
      split: prod.splits option.splits sum.splits if_splits)

lemma append_content_requested:
  "append_content P pathstr content w = (r, w') \<Longrightarrow> requested w' = requested w"
  by (auto simp: append_content_def mkdir_parents_def Let_def
      split: prod.splits option.splits sum.splits if_splits)

lemma write_page_requested:
  assumes "write_page P cf ex w = (r, w')"
  shows "requested w' = requested w"
proof (cases "write_content P (output_path cf (filename ex)) (final_content ex) w")
  case (Pair r1 w1)
  note w1 = write_content_requested [OF Pair]
  show ?thesis
  proof (cases r1)
    case (Inl e)
    with Pair assms w1 show ?thesis by (simp add: write_page_def)
  next
    case (Inr u)
    show ?thesis
    proof (cases "serie_combine_flag cf")
      case True
      with Pair Inr assms
      have "append_content P (output_path cf (serie_id cf)) (final_content ex @ linesep P) w1 = (r, w')"
        by (simp add: write_page_def)
      from append_content_requested [OF this] w1 show ?thesis by simp
    next
      case False
      with Pair Inr assms w1 show ?thesis by (simp add: write_page_def)
    qed
  qed
qed

lemma find_next_url_invalid:
  assumes "\<not> startswith (strip m) (lit ''/'')" and "\<not> startswith (strip m) (src_baseurl cf)"
  shows "find_next_url P cf draw (m # ms) w =
           (Inl end_of_chapters,
            logmsg INFO ''Next URL (xpath) is invalid. End of chapters is reached.''
              (logmsg DEBUG ''Next URL (xpath): %s'' w))"
  using assms by (simp add: find_next_url_def Let_def)

text \<open>
  C5. With the base URL \<open>https://example.com/novel/\<close>: the next link \<open>/ch2\<close> is
  joined to \<open>https://example.com/ch2\<close>, which is the URL of the next turn once the
  delay has been made; the next link \<open>javascript:void(0)\<close> ends the loop with the
  end-of-chapters exit, and a run that meets it on a page makes no request after the
  one for that page.
\<close>

theorem next_link_two_examples:
  "src_baseurl cf = lit ''https://example.com/novel/'' \<longrightarrow>
     urljoin P (src_baseurl cf) (lit ''/ch2'') = Inr (lit ''https://example.com/ch2'') \<and>
     find_next_url P cf draw (lit ''/ch2'' # ms) w =
       (case delay P (request_delay_ms cf) draw
               (logmsg DEBUG ''Next URL (normalized): %s'' (logmsg DEBUG ''Next URL (xpath): %s'' w)) of
          (Inl e, w2) \<Rightarrow> (Inl e, w2)
        | (Inr u, w2) \<Rightarrow> (Inr (lit ''https://example.com/ch2''), w2)) \<and>
     (\<exists>w'. find_next_url P cf draw (lit ''javascript:void(0)'' # ms) w = (Inl end_of_chapters, w') \<and>
           requested w' = requested w \<and> slept_ms w' = slept_ms w \<and> fsroot w' = fsroot w) \<and>
     (\<forall>resp pg. net url = Inr resp \<and> document resp = Inr pg \<and>
          nexturl_matches pg = lit ''javascript:void(0)'' # ms
        \<longrightarrow> (\<exists>e w'. crawl (Suc fuel) P cf net rng i url w = (Some e, w') \<and>
                    requested w' = requested w @ [url]))"
proof (intro impI conjI allI)
  assume b: "src_baseurl cf = lit ''https://example.com/novel/''"
  show j: "urljoin P (src_baseurl cf) (lit ''/ch2'') = Inr (lit ''https://example.com/ch2'')"
    unfolding b by (rule urljoin_ch2)
  have s: "strip (lit ''/ch2'') = lit ''/ch2''"
    by (simp add: strip_def is_space_def lit_def)
  have p: "startswith (lit ''/ch2'') (lit ''/'')"
    by (simp add: startswith_def lit_def)
  show "find_next_url P cf draw (lit ''/ch2'' # ms) w =
       (case delay P (request_delay_ms cf) draw
               (logmsg DEBUG ''Next URL (normalized): %s'' (logmsg DEBUG ''Next URL (xpath): %s'' w)) of
          (Inl e, w2) \<Rightarrow> (Inl e, w2)
        | (Inr u, w2) \<Rightarrow> (Inr (lit ''https://example.com/ch2''), w2))"
    using j by (simp add: find_next_url_def Let_def s p)
  have sj: "strip (lit ''javascript:void(0)'') = lit ''javascript:void(0)''"
    by (simp add: strip_def is_space_def lit_def)
  have n1: "\<not> startswith (strip (lit ''javascript:void(0)'')) (lit ''/'')"
    unfolding sj by (simp add: startswith_def lit_def)
  have n2: "\<not> startswith (strip (lit ''javascript:void(0)'')) (src_baseurl cf)"
    unfolding sj b by (simp add: startswith_def lit_def)
  note inv = find_next_url_invalid [OF n1 n2]
  show "\<exists>w'. find_next_url P cf draw (lit ''javascript:void(0)'' # ms) w = (Inl end_of_chapters, w') \<and>
           requested w' = requested w \<and> slept_ms w' = slept_ms w \<and> fsroot w' = fsroot w"
    by (simp add: inv)
  fix resp pg
  assume h: "net url = Inr resp \<and> document resp = Inr pg \<and>
          nexturl_matches pg = lit ''javascript:void(0)'' # ms"
  let ?w1 = "(logmsg INFO ''Fetch URL: %s'' w)\<lparr>requested := requested w @ [url]\<rparr>"
  have r1: "requested ?w1 = requested w @ [url]" by simp
  have "\<exists>e w'. iteration P cf net (rng i) url w = (Inl e, w') \<and> requested w' = requested w @ [url]"
  proof (cases "status_code resp \<noteq> STATUS_CODE_OK")
    case True
    with h show ?thesis by (simp add: iteration_def Let_def)
  next
    case ok: False
    show ?thesis
    proof (cases "extract_page P pg")
      case (Inl e)
      with h ok show ?thesis by (simp add: iteration_def Let_def)
    next
      case (Inr ex)
      let ?w3 = "logmsg DEBUG ''Filename: %s'' (logmsg DEBUG ''Title: %s''
                   (logmsg DEBUG ''Parsing HTML document'' ?w1))"
      obtain r4 w4 where wp: "write_page P cf ex ?w3 = (r4, w4)" by (cases "write_page P cf ex ?w3")
      from write_page_requested [OF wp] have r4: "requested w4 = requested w @ [url]" by simp
      show ?thesis
      proof (cases r4)
        case (Inl e)
        with h ok Inr wp r4 show ?thesis by (simp add: iteration_def Let_def)
      next
        case u: (Inr u)
        with h ok Inr wp r4 show ?thesis by (simp add: iteration_def Let_def inv)
      qed
    qed
  qed
  then show "\<exists>e w'. crawl (Suc fuel) P cf net rng i url w = (Some e, w') \<and>
                    requested w' = requested w @ [url]"
    by auto
qed

section \<open>The interval of the delay\<close>

lemma round_to_double_small: "n < 2 ^ 53 \<Longrightarrow> round_to_double n = n"
  by (simp add: round_to_double_def floorlog_le_iff)

lemma round_to_double_large:
  assumes big: "\<not> floorlog 2 n \<le> 53"
  shows "2 ^ (floorlog 2 n - 1) \<le> round_to_double n"
    and "round_to_double n \<le> n + n div 2"
proof -
  define s where "s = floorlog 2 n - 53"
  define q where "q = n div 2 ^ s"
  define up where "up \<longleftrightarrow> n mod 2 ^ s > 2 ^ (s - 1) \<or> (n mod 2 ^ s = 2 ^ (s - 1) \<and> odd q)"
  have L: "floorlog 2 n = 53 + s" and s1: "1 \<le> s"
    using big by (simp_all add: s_def)
  have n0: "0 < n"
    using big by (cases "n = 0") (simp_all add: floorlog_def)
  have lo: "2 ^ (52 + s) \<le> n"
    using floorlog_bounds [of n 2] n0 L by simp
  have m: "round_to_double n = (if up then q + 1 else q) * 2 ^ s"
    using big by (simp add: round_to_double_def Let_def s_def q_def up_def)
  have "(2::nat) ^ 52 * 2 ^ s \<le> n"
    using lo by (simp add: power_add)
  then have q52: "2 ^ 52 \<le> q"
    unfolding q_def by (simp add: less_eq_div_iff_mult_less_eq)
  have "(2::nat) ^ 52 * 2 ^ s \<le> q * 2 ^ s"
    using q52 by (rule mult_le_mono1)
  also have "\<dots> \<le> round_to_double n"
    unfolding m by simp
  finally have "2 ^ (52 + s) \<le> round_to_double n"
    by (simp add: power_add)
  then show "2 ^ (floorlog 2 n - 1) \<le> round_to_double n"
    using L by simp
  have qn: "q * 2 ^ s \<le> n"
    unfolding q_def by simp
  have "(2::nat) * 2 ^ s \<le> 2 ^ 52 * 2 ^ s"
    by (rule mult_le_mono1) simp
  also have "\<dots> \<le> n"
    using lo by (simp add: power_add)
  finally have half: "2 ^ s \<le> n div 2"
    by simp
  have "round_to_double n \<le> (q + 1) * 2 ^ s"
    unfolding m by simp
  also have "\<dots> = q * 2 ^ s + 2 ^ s"
    by (simp add: algebra_simps)
  also have "\<dots> \<le> n + n div 2"
    using qn half by (rule add_mono)
  finally show "round_to_double n \<le> n + n div 2" .
qed

lemma round_to_double_upper: "round_to_double n \<le> n + n div 2"
proof (cases "floorlog 2 n \<le> 53")
  case True
  then show ?thesis by (simp add: round_to_double_def)
next
  case False
  then show ?thesis by (rule round_to_double_large(2))
qed

lemma round_to_double_overflow:
  assumes "2 ^ 1025 \<le> n"
  shows "2 ^ 1025 \<le> round_to_double n"
proof -
  have g: "Suc 1025 \<le> floorlog 2 n"
    using assms by (intro floorlog_ge_SucI) simp_all
  then have big: "\<not> floorlog 2 n \<le> 53" by simp
  have "(2::nat) ^ 1025 \<le> 2 ^ (floorlog 2 n - 1)"
    using g by (intro power_increasing) simp_all
  also have "\<dots> \<le> round_to_double n"
    using big by (rule round_to_double_large(1))
  finally show ?thesis .
qed

lemma less_double: "n < b \<Longrightarrow> m \<le> n + n div 2 \<Longrightarrow> m < 2 * b" for n m b :: nat
  by arith

lemma quarter_left: "d \<le> (n + n div 2) div 2 \<Longrightarrow> 4 * b \<le> n \<Longrightarrow> b \<le> n - d" for n d b :: int
  by arith

lemma floor_half_small:
  assumes "\<bar>a\<bar> < 2 ^ 53"
  shows "floor_half a = Inr (a div 2)"
proof -
  have n: "nat \<bar>a\<bar> < 2 ^ 53"
    using assms by (simp add: nat_less_iff)
  have "round_to_double (nat \<bar>a\<bar>) = nat \<bar>a\<bar>"
    using n by (rule round_to_double_small)
  moreover have "(nat \<bar>a\<bar> :: nat) < 2 ^ 1025"
    using n by (rule less_trans) simp
  ultimately show ?thesis
    by (simp add: floor_half_def Let_def)
qed

lemma floor_half_total:
  assumes "\<bar>a\<bar> < 2 ^ 1024"
  shows "\<exists>d. floor_half a = Inr d"
proof -
  have n: "nat \<bar>a\<bar> < 2 ^ 1024"
    using assms by (simp add: nat_less_iff)
  have "round_to_double (nat \<bar>a\<bar>) \<le> nat \<bar>a\<bar> + nat \<bar>a\<bar> div 2"
    by (rule round_to_double_upper)
  with n have "round_to_double (nat \<bar>a\<bar>) < 2 * 2 ^ 1024"
    by (rule less_double)
  then have "round_to_double (nat \<bar>a\<bar>) < 2 ^ 1025"
    by simp
  then show ?thesis
    by (simp add: floor_half_def Let_def)
qed

lemma floor_half_overflow:
  assumes "2 ^ 1025 \<le> \<bar>a\<bar>"
  shows "floor_half a = Inl OverflowError"
proof -
  have "2 ^ 1025 \<le> nat \<bar>a\<bar>"
    using assms by (simp add: le_nat_iff)
  then have "2 ^ 1025 \<le> round_to_double (nat \<bar>a\<bar>)"
    by (rule round_to_double_overflow)
  then show ?thesis
    by (simp add: floor_half_def Let_def)
qed

lemma floor_half_cases:
  "floor_half a = Inl OverflowError \<or> (\<exists>d. floor_half a = Inr d)"
  by (simp add: floor_half_def Let_def)

lemma floor_half_nonpositive:
  assumes "floor_half a = Inr d" and "a < 2"
  shows "d \<le> 0"
proof (cases "a < 0")
  case True
  with assms(1) have "d = (- int (round_to_double (nat \<bar>a\<bar>))) div 2"
    by (simp add: floor_half_def Let_def split: if_splits)
  then show ?thesis by simp
next
  case False
  with assms(2) have "\<bar>a\<bar> < 2 ^ 53" by simp
  from floor_half_small [OF this] assms False show ?thesis by simp
qed

lemma floor_half_far:
  assumes "floor_half a = Inr d" and "2 ^ 53 \<le> a"
  shows "2 ^ 51 \<le> a - d"
proof -
  define n where "n = nat \<bar>a\<bar>"
  have a: "a = int n" and n: "2 ^ 53 \<le> n"
    using assms(2) by (simp_all add: n_def le_nat_iff)
  have "\<not> a < 0"
    using assms(2) by simp
  with assms(1) have "d = int (round_to_double (nat \<bar>a\<bar>)) div 2"
    by (simp add: floor_half_def Let_def split: if_splits)
  then have "d = int (round_to_double n) div 2"
    by (simp only: n_def)
  moreover have "round_to_double n \<le> n + n div 2"
    by (rule round_to_double_upper)
  ultimately have "d \<le> (int n + int n div 2) div 2"
    by (simp add: zdiv_mono1 flip: of_nat_add of_nat_div)
  moreover have "4 * 2 ^ 51 \<le> int n"
    using n by simp
  ultimately have "2 ^ 51 \<le> int n - d"
    by (rule quarter_left)
  with a show ?thesis by simp
qed


lemma floor_real_half: "\<lfloor>real_of_int a / 2\<rfloor> = a div 2"
  using floor_divide_of_int_eq [of a 2, where ?'a = real] by simp

lemma randrange_bij:
  assumes "lo < hi"
  shows "bij_betw (\<lambda>g. projr (randrange lo hi g)) {..<nat (hi - lo)} {lo..<hi}"
proof -
  have "bij_betw (\<lambda>g. lo + int g) {..<nat (hi - lo)} {lo..<hi}"
    by (rule bij_betw_byWitness [where f' = "\<lambda>k. nat (k - lo)"]) auto
  moreover have "projr (randrange lo hi g) = lo + int g" if "g \<in> {..<nat (hi - lo)}" for g
    using that assms by (simp add: randrange_def Let_def)
  then have "bij_betw (\<lambda>g. projr (randrange lo hi g)) {..<nat (hi - lo)} {lo..<hi}
      = bij_betw (\<lambda>g. lo + int g) {..<nat (hi - lo)} {lo..<hi}"
    by (rule bij_betw_cong)
  ultimately show ?thesis
    by simp
qed

lemma delay_returns:
  assumes "delay P a draw w = (Inr (), w')"
  shows "\<exists>d k. floor_half a = Inr d \<and> randrange (a - d) (a + d) draw = Inr k \<and>
           1 \<le> d \<and> a - d \<le> k \<and> k < a + d \<and> k * 10 ^ 6 < 2 ^ 63 \<and>
           slept_ms w' = slept_ms w @ [k]"
proof -
  from assms obtain d where d: "floor_half a = Inr d"
    by (auto simp: delay_def split: sum.splits)
  with assms obtain k where k: "randrange (a - d) (a + d) draw = Inr k"
    by (auto simp: delay_def split: sum.splits)
  with assms d have t: "time_sleep P k (logmsg DEBUG ''Delay for: %s ms'' w) = (Inr (), w')"
    by (simp add: delay_def)
  from k have w: "0 < (a + d) - (a - d)" and kv: "k = a - d + int (draw mod nat ((a + d) - (a - d)))"
    by (auto simp: randrange_def Let_def split: if_splits)
  have "draw mod nat ((a + d) - (a - d)) < nat ((a + d) - (a - d))"
    using w by simp
  then have "int (draw mod nat ((a + d) - (a - d))) < (a + d) - (a - d)"
    by (simp only: zless_nat_eq_int_zless)
  with kv have kb: "a - d \<le> k" "k < a + d" by simp_all
  from t have "k * 10 ^ 6 < 2 ^ 63" and "slept_ms w' = slept_ms w @ [k]"
    by (auto simp: time_sleep_def split: if_splits)
  with d k w kb show ?thesis by auto
qed

text \<open>
  C8. Whenever \<open>delay\<close> returns normally, it has slept a whole number \<open>k\<close> of
  milliseconds that is the result of \<open>randrange\<close> over the half-open interval from
  \<open>average_ms - floor (average_ms / 2)\<close> to \<open>average_ms + floor (average_ms / 2)\<close>, so
  \<open>k\<close> lies in that interval; and the choice is uniform: the values the generator can
  yield below the width of the interval correspond one to one to the integers of the
  interval.
\<close>

theorem delay_uniform_interval:
  "delay P average_ms draw w = (Inr (), w') \<longrightarrow>
     (let lo = average_ms - \<lfloor>real_of_int average_ms / 2\<rfloor>;
          hi = average_ms + \<lfloor>real_of_int average_ms / 2\<rfloor>
      in lo < hi \<and>
         (\<exists>k. slept_ms w' = slept_ms w @ [k] \<and> randrange lo hi draw = Inr k \<and> lo \<le> k \<and> k < hi) \<and>
         bij_betw (\<lambda>g. projr (randrange lo hi g)) {..<nat (hi - lo)} {lo..<hi})"
proof
  assume "delay P average_ms draw w = (Inr (), w')"
  from delay_returns [OF this] obtain d k where
    d: "floor_half average_ms = Inr d" and r: "randrange (average_ms - d) (average_ms + d) draw = Inr k"
    and d1: "1 \<le> d" and kb: "average_ms - d \<le> k" "k < average_ms + d"
    and fits: "k * 10 ^ 6 < 2 ^ 63" and s: "slept_ms w' = slept_ms w @ [k]"
    by blast
  have a2: "2 \<le> average_ms"
    using floor_half_nonpositive [OF d] d1 by (cases "average_ms < 2") simp_all
  have small: "average_ms < 2 ^ 53"
  proof (rule ccontr)
    assume "\<not> average_ms < 2 ^ 53"
    then have "2 ^ 53 \<le> average_ms" by simp
    from floor_half_far [OF d this] kb(1) have "2 ^ 51 \<le> k" by simp
    with fits show False by simp
  qed
  with a2 have "\<bar>average_ms\<bar> < 2 ^ 53" by simp
  from floor_half_small [OF this] d have dd: "d = \<lfloor>real_of_int average_ms / 2\<rfloor>"
    by (simp add: floor_real_half)
  have lt: "average_ms - d < average_ms + d" using d1 by simp
  from randrange_bij [OF lt] r kb s lt
  show "let lo = average_ms - \<lfloor>real_of_int average_ms / 2\<rfloor>;
          hi = average_ms + \<lfloor>real_of_int average_ms / 2\<rfloor>
      in lo < hi \<and>
         (\<exists>k. slept_ms w' = slept_ms w @ [k] \<and> randrange lo hi draw = Inr k \<and> lo \<le> k \<and> k < hi) \<and>
         bij_betw (\<lambda>g. projr (randrange lo hi g)) {..<nat (hi - lo)} {lo..<hi}"
    unfolding Let_def dd [symmetric] by blast
qed

lemma delay_example:
  "delay posix 1000 7 w = (Inr (), (logmsg DEBUG ''Delay for: %s ms'' w)\<lparr>slept_ms := slept_ms w @ [507]\<rparr>)"
proof -
  have "floor_half 1000 = Inr (1000 div 2)"
    by (rule floor_half_small) simp
  then show ?thesis
    by (simp add: delay_def randrange_def time_sleep_def posix_def)
qed

theorem delay_uniform_interval_witness:
  "fst (delay posix 1000 7 empty_world) = Inr () \<and>
   slept_ms (snd (delay posix 1000 7 empty_world)) = [507] \<and>
   randrange 500 1500 7 = Inr 507 \<and>
   bij_betw (\<lambda>g. projr (randrange 500 1500 g)) {..<1000} {500..<1500}"
proof -
  have e: "delay posix 1000 7 empty_world = (Inr (), snd (delay posix 1000 7 empty_world))"
    by (simp add: delay_example)
  have f: "\<lfloor>real_of_int 1000 / 2\<rfloor> = 500" by simp
  from delay_uniform_interval [of posix 1000 7 empty_world "snd (delay posix 1000 7 empty_world)"] e
  have "bij_betw (\<lambda>g. projr (randrange 500 1500 g)) {..<1000} {500..<1500}"
    by (simp add: Let_def)
  then show ?thesis
    by (simp add: delay_example empty_world_def randrange_def)
qed

text \<open>
  C10, as stated, fails: for the average \<open>- 2 ^ 1025\<close>, which is below 2, the
  division \<open>average_ms / 2\<close> overflows the floats, and \<open>delay\<close> raises
  \<open>OverflowError\<close>, not \<open>ValueError\<close>.
\<close>

theorem delay_below_two_counterexample:
  "(- (2 ^ 1025) :: int) < 2 \<and>
   delay posix (- (2 ^ 1025)) 0 empty_world = (Inl OverflowError, empty_world)"
proof -
  have "floor_half (- (2 ^ 1025)) = Inl OverflowError"
    by (rule floor_half_overflow) simp
  then show ?thesis
    by (simp add: delay_def)
qed

text \<open>
  C10, amended. For every \<open>average_ms\<close> below 2, \<open>delay\<close> raises and does not sleep:
  a \<open>ValueError\<close> for the empty range whenever the quotient \<open>average_ms / 2\<close> is
  within the floats, as it is for every \<open>average_ms\<close> above \<open>- 2 ^ 1024\<close>, and the
  \<open>OverflowError\<close> of the division otherwise, as for every \<open>average_ms\<close> at or
  below \<open>- 2 ^ 1025\<close>. For 0 and 1 the deviation is 0 and the range runs from
  \<open>average_ms\<close> to \<open>average_ms\<close>. So with such a configured delay the first turn
  of the loop that has a valid next link ends in the \<open>ValueError\<close>, with no sleep.
\<close>

theorem delay_below_two_raises:
  "average_ms < 2 \<longrightarrow>
     (\<exists>e. delay P average_ms draw w = (Inl e, w) \<and> (e = ValueError \<or> e = OverflowError) \<and>
          (e = OverflowError \<longleftrightarrow> floor_half average_ms = Inl OverflowError)) \<and>
     (- (2 ^ 1024) < average_ms \<longrightarrow> delay P average_ms draw w = (Inl ValueError, w)) \<and>
     (average_ms \<le> - (2 ^ 1025) \<longrightarrow> delay P average_ms draw w = (Inl OverflowError, w)) \<and>
     (0 \<le> average_ms \<longrightarrow>
        floor_half average_ms = Inr 0 \<and> randrange (average_ms - 0) (average_ms + 0) draw = Inl ValueError) \<and>
     (\<forall>cf m ms u w0.
        request_delay_ms cf = average_ms \<and> - (2 ^ 1024) < average_ms \<and>
        (startswith (strip m) (lit ''/'') \<or> startswith (strip m) (src_baseurl cf)) \<and>
        urljoin P (src_baseurl cf) (strip m) = Inr u
        \<longrightarrow> (\<exists>w1. find_next_url P cf draw (m # ms) w0 = (Inl ValueError, w1) \<and>
                  slept_ms w1 = slept_ms w0))"
proof
  assume lt: "average_ms < 2"
  have empty: "delay P average_ms draw w = (Inl ValueError, w)" if "floor_half average_ms = Inr d" for d w
  proof -
    from floor_half_nonpositive [OF that lt] have "d \<le> 0" .
    then show ?thesis
      using that by (simp add: delay_def randrange_def)
  qed
  have above: "delay P average_ms draw w = (Inl ValueError, w)" if "- (2 ^ 1024) < average_ms" for w
  proof -
    from that lt have "\<bar>average_ms\<bar> < 2 ^ 1024" by simp
    from floor_half_total [OF this] empty show ?thesis by blast
  qed
  have c1: "\<exists>e. delay P average_ms draw w = (Inl e, w) \<and> (e = ValueError \<or> e = OverflowError) \<and>
          (e = OverflowError \<longleftrightarrow> floor_half average_ms = Inl OverflowError)"
  proof (cases "floor_half average_ms")
    case (Inl e)
    with floor_half_cases [of average_ms] have "floor_half average_ms = Inl OverflowError" by auto
    then show ?thesis by (simp add: delay_def)
  next
    case (Inr d)
    with empty [OF Inr] show ?thesis by simp
  qed
  have c3: "delay P average_ms draw w = (Inl OverflowError, w)" if "average_ms \<le> - (2 ^ 1025)"
  proof -
    from that have "2 ^ 1025 \<le> \<bar>average_ms\<bar>" by simp
    from floor_half_overflow [OF this] show ?thesis by (simp add: delay_def)
  qed
  have c4: "floor_half average_ms = Inr 0 \<and> randrange (average_ms - 0) (average_ms + 0) draw = Inl ValueError"
    if "0 \<le> average_ms"
  proof -
    from that lt have "\<bar>average_ms\<bar> < 2 ^ 53" by simp
    from floor_half_small [OF this] that lt show ?thesis
      by (simp add: randrange_def)
  qed
  have c5: "\<exists>w1. find_next_url P cf draw (m # ms) w0 = (Inl ValueError, w1) \<and> slept_ms w1 = slept_ms w0"
    if "request_delay_ms cf = average_ms \<and> - (2 ^ 1024) < average_ms \<and>
        (startswith (strip m) (lit ''/'') \<or> startswith (strip m) (src_baseurl cf)) \<and>
        urljoin P (src_baseurl cf) (strip m) = Inr u" for cf m ms u w0
    using that above by (auto simp: find_next_url_def Let_def)
  from c1 above c3 c4 c5
  show "(\<exists>e. delay P average_ms draw w = (Inl e, w) \<and> (e = ValueError \<or> e = OverflowError) \<and>
          (e = OverflowError \<longleftrightarrow> floor_half average_ms = Inl OverflowError)) \<and>
     (- (2 ^ 1024) < average_ms \<longrightarrow> delay P average_ms draw w = (Inl ValueError, w)) \<and>
     (average_ms \<le> - (2 ^ 1025) \<longrightarrow> delay P average_ms draw w = (Inl OverflowError, w)) \<and>
     (0 \<le> average_ms \<longrightarrow>
        floor_half average_ms = Inr 0 \<and> randrange (average_ms - 0) (average_ms + 0) draw = Inl ValueError) \<and>
     (\<forall>cf m ms u w0.
        request_delay_ms cf = average_ms \<and> - (2 ^ 1024) < average_ms \<and>
        (startswith (strip m) (lit ''/'') \<or> startswith (strip m) (src_baseurl cf)) \<and>
        urljoin P (src_baseurl cf) (strip m) = Inr u
        \<longrightarrow> (\<exists>w1. find_next_url P cf draw (m # ms) w0 = (Inl ValueError, w1) \<and>
                  slept_ms w1 = slept_ms w0))"
    by blast
qed

theorem delay_below_two_raises_witness:
  "(1::int) < 2 \<and>
   delay posix 1 7 empty_world = (Inl ValueError, empty_world) \<and>
   floor_half 1 = Inr 0 \<and>
   fst (find_next_url posix (example_config\<lparr>request_delay_ms := 1\<rparr>) 7 [lit '' /ch2 ''] empty_world)
     = Inl ValueError"
proof -
  let ?cf = "example_config\<lparr>request_delay_ms := 1\<rparr>"
  have s: "strip (lit '' /ch2 '') = lit ''/ch2''"
    by (simp add: strip_def is_space_def lit_def)
  have h: "request_delay_ms ?cf = 1 \<and> - (2 ^ 1024) < (1::int) \<and>
        (startswith (strip (lit '' /ch2 '')) (lit ''/'') \<or>
         startswith (strip (lit '' /ch2 '')) (src_baseurl ?cf)) \<and>
        urljoin posix (src_baseurl ?cf) (strip (lit '' /ch2 '')) = Inr (lit ''https://example.com/ch2'')"
    unfolding s using urljoin_ch2 [of posix]
    by (simp add: example_config_def startswith_def lit_def)
  have p: "(1::int) < 2" by simp
  note th = delay_below_two_raises [of 1 posix 7 empty_world, THEN mp, OF p]
  from th have a: "delay posix 1 7 empty_world = (Inl ValueError, empty_world)" by simp
  from th have b: "floor_half 1 = Inr 0" by simp
  from th h have "\<exists>w1. find_next_url posix ?cf 7 (lit '' /ch2 '' # []) empty_world = (Inl ValueError, w1) \<and>
      slept_ms w1 = slept_ms empty_world"
    by blast
  with a b show ?thesis by auto
qed

theorem next_link_two_examples_witness:
  "src_baseurl example_config = lit ''https://example.com/novel/'' \<and>
   urljoin posix (lit ''https://example.com/novel/'') (lit ''/ch2'') = Inr (lit ''https://example.com/ch2'') \<and>
   fst (find_next_url posix example_config 7 [lit ''/ch2''] empty_world) = Inr (lit ''https://example.com/ch2'') \<and>
   fst (find_next_url posix example_config 7 [lit ''javascript:void(0)''] empty_world) = Inl end_of_chapters \<and>
   (\<exists>e w'. crawl (Suc 0) posix example_config example_web (\<lambda>i. 7) 0 (lit ''https://example.com/ch2'')
              empty_world = (Some e, w') \<and>
           requested w' = [lit ''https://example.com/ch2''])"
proof -
  have b: "src_baseurl example_config = lit ''https://example.com/novel/''"
    by (simp add: example_config_def)
  have d: "request_delay_ms example_config = 1000"
    by (simp add: example_config_def)
  have n: "example_web (lit ''https://example.com/ch2'')
        = Inr \<lparr> status_code = 200, document = Inr new_dawn \<rparr> \<and>
      document \<lparr> status_code = 200, document = Inr new_dawn \<rparr> = Inr new_dawn \<and>
      nexturl_matches new_dawn = lit ''javascript:void(0)'' # []"
    by (simp add: example_web_def new_dawn_def lit_def)
  have r: "requested empty_world = []"
    by (simp add: empty_world_def)
  note th = next_link_two_examples [of example_config posix 7 "[]" empty_world example_web
      "lit ''https://example.com/ch2''" 0 "\<lambda>i. 7" 0, THEN mp, OF b]
  from th have 1: "urljoin posix (lit ''https://example.com/novel/'') (lit ''/ch2'')
      = Inr (lit ''https://example.com/ch2'')"
    by (simp add: b)
  from th have 2: "fst (find_next_url posix example_config 7 [lit ''/ch2''] empty_world)
      = Inr (lit ''https://example.com/ch2'')"
    by (simp add: d delay_example)
  from th have 3: "fst (find_next_url posix example_config 7 [lit ''javascript:void(0)''] empty_world)
      = Inl end_of_chapters"
    by auto
  from th n have "\<exists>e w'. crawl (Suc 0) posix example_config example_web (\<lambda>i. 7) 0
      (lit ''https://example.com/ch2'') empty_world = (Some e, w') \<and>
      requested w' = requested empty_world @ [lit ''https://example.com/ch2'']"
    by blast
  with b 1 2 3 r show ?thesis by simp
qed

section \<open>An output path that exists\<close>

lemma str_split_nonempty: "str_split c s \<noteq> []"
  by (induction s) (auto split: list.splits)

lemma str_split_no_sep: "c \<notin> set s \<Longrightarrow> str_split c s = [s]"
  by (induction s) auto

lemma str_split_append: "str_split c (xs @ c # ys) = str_split c xs @ str_split c ys"
proof (induction xs)
  case Nil
  show ?case by simp
next
  case (Cons x xs)
  show ?case
  proof (cases "str_split c xs")
    case Nil
    with str_split_nonempty show ?thesis by blast
  next
    case (Cons h t)
    with Cons.IH show ?thesis by simp
  qed
qed

lemma slash_not_word: "\<not> is_word P 47"
  by (simp add: is_word_def ascii_alnum_def)

lemma filename_no_slash: "47 \<notin> set (derive_filename P t)"
  using derive_filename_chars [of 47 P t] slash_not_word by blast

lemma output_path_parts:
  assumes "47 \<notin> set name"
  shows "\<exists>ps. snd (Path (output_path cf name)) = ps @ [name @ lit ''.txt''] \<and>
              snd (parent (Path (output_path cf name))) = ps \<and>
              fst (parent (Path (output_path cf name))) = fst (Path (output_path cf name))"
proof -
  let ?l = "name @ lit ''.txt''"
  have o: "output_path cf name = (basedir cf @ lit ''/'' @ serie_id cf) @ 47 # ?l"
    by (simp add: output_path_def lit_def)
  have "47 \<notin> set ?l"
    using assms by (simp add: lit_def)
  then have "str_split 47 ?l = [?l]"
    by (rule str_split_no_sep)
  then have "str_split 47 (output_path cf name) = str_split 47 (basedir cf @ lit ''/'' @ serie_id cf) @ [?l]"
    by (simp only: o str_split_append)
  moreover have "?l \<noteq> [] \<and> ?l \<noteq> lit ''.''"
    by (simp add: lit_def append_eq_Cons_conv)
  ultimately show ?thesis
    by (simp add: Path_def parent_def)
qed

lemma stat_parent_is_dir:
  assumes "stat r start (ps @ [l]) = Inr n"
  shows "is_dir r start ps"
proof -
  from assms obtain loc where "walk r start ps = Inr loc" "walk r loc [l] \<noteq> Inl FileNotFoundError"
    "walk r loc [l] \<noteq> Inl NotADirectoryError"
    by (auto simp: stat_def walk_append split: sum.splits option.splits fsnode.splits)
  then show ?thesis
    by (auto simp: is_dir_def stat_def split: sum.splits option.splits fsnode.splits)
qed

lemma os_mkdir_existing:
  assumes "is_dir r start ps"
  shows "os_mkdir (a, ps) r start = Inl (FileExistsError (a, ps))"
proof (cases ps rule: rev_cases)
  case Nil
  then show ?thesis by (simp add: os_mkdir_def)
next
  case (snoc qs k)
  with assms obtain loc loc2 m m2 where
    w: "walk r start qs = Inr loc" and m: "fs_lookup r loc = Some (Dir m)"
    and l2: "loc2 = (if k = lit ''..'' then butlast loc else loc @ [k])"
    and m2: "fs_lookup r loc2 = Some (Dir m2)"
    by (auto simp: is_dir_def stat_def walk_append split: sum.splits option.splits fsnode.splits)
  have "k = lit ''..'' \<or> m k \<noteq> None"
  proof (cases "k = lit ''..''")
    case True
    then show ?thesis ..
  next
    case False
    with l2 m2 m show ?thesis
      by (auto simp: fs_lookup_append split: option.splits)
  qed
  with snoc w m show ?thesis
    by (simp add: os_mkdir_def)
qed

text \<open>Where the directory is there, \<open>mkdir(parents=True, exist_ok=True)\<close> changes nothing.\<close>

lemma mkdir_rev_existing:
  assumes "is_dir r start ps"
  shows "mkdir_rev a r start (rev ps) = (None, r)"
proof (cases "rev ps")
  case Nil
  with assms os_mkdir_existing [OF assms, of a] show ?thesis by simp
next
  case (Cons l ups)
  then have "rev (l # ups) = ps" by (metis rev_rev_ident)
  with Cons assms os_mkdir_existing [OF assms, of a] show ?thesis by simp
qed

lemma path_exists_frame:
  "fsroot w' = fsroot w \<Longrightarrow> cwd w' = cwd w \<Longrightarrow> path_exists w' p = path_exists w p"
  by (simp add: path_exists_def start_at_def)

lemma write_content_existing:
  assumes ex: "path_exists w (Path (output_path cf name))" and ns: "47 \<notin> set name"
  shows "write_content P (output_path cf name) content w =
           (Inl (FileExistsError (Path (output_path cf name))),
            logmsg ERROR ''Can't write content to an already existsting path: %s'' w)"
proof -
  let ?p = "Path (output_path cf name)"
  from output_path_parts [OF ns, of cf] obtain ps where
    p: "snd ?p = ps @ [name @ lit ''.txt'']" "snd (parent ?p) = ps" "fst (parent ?p) = fst ?p"
    by blast
  from ex p(1) obtain n where
    "stat (fsroot w) (start_at w ?p) (ps @ [name @ lit ''.txt'']) = Inr n"
    by (auto simp: path_exists_def split: sum.splits)
  then have "is_dir (fsroot w) (start_at w ?p) ps"
    by (rule stat_parent_is_dir)
  moreover have "start_at w (parent ?p) = start_at w ?p"
    using p(3) by (simp add: start_at_def)
  ultimately have "mkdir_parents (parent ?p) w = (None, w)"
    using p(2) by (simp add: mkdir_parents_def mkdir_rev_existing)
  with ex show ?thesis
    by (simp add: write_content_def Let_def)
qed

text \<open>
  A \<open>..\<close> in the path is followed through the directory on its left. With only
  \<open>A_New_Dawn.txt\<close> in the working directory, \<open>out/../A_New_Dawn.txt\<close> does not
  exist; writing to it makes \<open>out\<close>, after which the path exists and the write is
  refused. Where \<open>out\<close> is a regular file, making the parent \<open>out/..\<close> fails.
\<close>

lemma write_content_through_dotdot:
  "\<not> path_exists flat_world (Path (lit ''out/../A_New_Dawn.txt'')) \<and>
   fst (write_content posix (lit ''out/../A_New_Dawn.txt'') (lit ''new'') flat_world)
     = Inl (FileExistsError (Path (lit ''out/../A_New_Dawn.txt''))) \<and>
   path_exists (snd (write_content posix (lit ''out/../A_New_Dawn.txt'') (lit ''new'') flat_world))
     (Path (lit ''out'')) \<and>
   read_text (snd (write_content posix (lit ''out/../A_New_Dawn.txt'') (lit ''new'') flat_world))
     (Path (lit ''A_New_Dawn.txt'')) = Some (lit ''kept'') \<and>
   write_content posix (lit ''out/../A_New_Dawn.txt'') (lit ''new'') blocked_world
     = (Inl NotADirectoryError, blocked_world)"
  by (simp add: write_content_def Let_def Path_def parent_def mkdir_parents_def start_at_def
      path_exists_def read_text_def stat_def is_dir_def os_mkdir_def open_write_def
      flat_world_def blocked_world_def logmsg_def startswith_def lit_def)

text \<open>
  C7. If the output path of the page exists when the loop comes to write it (the page
  was fetched with status 200 and extracted), the run ends there with the
  \<open>FileExistsError\<close> of that path, after an error record in the log; the file system
  is as it was, so the file that was there keeps its text; and the page is not skipped:
  no request follows the one for this page, and no sleep is made.
\<close>

theorem existing_output_aborts:
  "net url = Inr resp \<and> status_code resp = STATUS_CODE_OK \<and> document resp = Inr pg \<and>
   extract_page P pg = Inr ex \<and> path_exists w (Path (output_path cf (filename ex)))
   \<longrightarrow> (\<exists>w'. crawl (Suc fuel) P cf net rng i url w
                 = (Some (FileExistsError (Path (output_path cf (filename ex)))), w') \<and>
             fsroot w' = fsroot w \<and> cwd w' = cwd w \<and>
             (\<forall>p. read_text w' p = read_text w p) \<and>
             requested w' = requested w @ [url] \<and> slept_ms w' = slept_ms w \<and>
             last (logged w') = (ERROR, ''Can't write content to an already existsting path: %s''))"
proof
  assume h: "net url = Inr resp \<and> status_code resp = STATUS_CODE_OK \<and> document resp = Inr pg \<and>
   extract_page P pg = Inr ex \<and> path_exists w (Path (output_path cf (filename ex)))"
  let ?w3 = "logmsg DEBUG ''Filename: %s'' (logmsg DEBUG ''Title: %s''
    (logmsg DEBUG ''Parsing HTML document''
      ((logmsg INFO ''Fetch URL: %s'' w)\<lparr>requested := requested w @ [url]\<rparr>)))"
  let ?w' = "logmsg ERROR ''Can't write content to an already existsting path: %s'' ?w3"
  from h extract_page_fields [of P pg ex] have "filename ex = derive_filename P (title ex)"
    by auto
  then have ns: "47 \<notin> set (filename ex)"
    using filename_no_slash by simp
  have "path_exists ?w3 (Path (output_path cf (filename ex)))
      = path_exists w (Path (output_path cf (filename ex)))"
    by (rule path_exists_frame) simp_all
  with h have "path_exists ?w3 (Path (output_path cf (filename ex)))"
    by simp
  from write_content_existing [OF this ns]
  have "write_page P cf ex ?w3 = (Inl (FileExistsError (Path (output_path cf (filename ex)))), ?w')"
    by (simp add: write_page_def)
  with h have "iteration P cf net (rng i) url w
      = (Inl (FileExistsError (Path (output_path cf (filename ex)))), ?w')"
    by (simp add: iteration_def Let_def)
  then have c: "crawl (Suc fuel) P cf net rng i url w
      = (Some (FileExistsError (Path (output_path cf (filename ex)))), ?w')"
    by simp
  have "read_text ?w' p = read_text w p" for p
    by (simp add: read_text_def start_at_def logmsg_def)
  moreover have "last (logged ?w') = (ERROR, ''Can't write content to an already existsting path: %s'')"
    by (simp add: logmsg_def)
  ultimately show "\<exists>w'. crawl (Suc fuel) P cf net rng i url w
                 = (Some (FileExistsError (Path (output_path cf (filename ex)))), w') \<and>
             fsroot w' = fsroot w \<and> cwd w' = cwd w \<and>
             (\<forall>p. read_text w' p = read_text w p) \<and>
             requested w' = requested w @ [url] \<and> slept_ms w' = slept_ms w \<and>
             last (logged w') = (ERROR, ''Can't write content to an already existsting path: %s'')"
    using c by (intro exI [of _ ?w']) simp
qed

lemma new_dawn_extracted:
  "extract_page posix new_dawn =
     Inr \<lparr> title = lit ''A New Dawn'', filename = lit ''A_New_Dawn'',
           content_firstline = lit ''the sun rose slowly'',
           final_content = lit ''## A New Dawn'' @ [10] @ lit ''The sun rose slowly'' \<rparr>"
  by (simp add: extract_page_def new_dawn_def Let_def reconcile_heading_def normalize_nodes_def
      derive_filename_def unidecode_def strip_def lower_def startswith_def contains_def
      is_ascii_def ascii_lower_def is_space_def is_word_def ascii_alnum_def posix_def lit_def
      sublist_Cons_right)

theorem existing_output_aborts_witness:
  "path_exists used_world (Path (lit ''out/s1/A_New_Dawn.txt'')) \<and>
   read_text used_world (Path (lit ''out/s1/A_New_Dawn.txt'')) = Some (lit ''kept'') \<and>
   (\<exists>w'. crawl (Suc 2) posix example_config example_web (\<lambda>i. 7) 0 (lit ''https://example.com/ch2'') used_world
            = (Some (FileExistsError (Path (lit ''out/s1/A_New_Dawn.txt''))), w') \<and>
          read_text w' (Path (lit ''out/s1/A_New_Dawn.txt'')) = Some (lit ''kept'') \<and>
          requested w' = [lit ''https://example.com/ch2''] \<and> slept_ms w' = [])"
proof -
  let ?ex = "\<lparr> title = lit ''A New Dawn'', filename = lit ''A_New_Dawn'',
           content_firstline = lit ''the sun rose slowly'',
           final_content = lit ''## A New Dawn'' @ [10] @ lit ''The sun rose slowly'' \<rparr>"
  have o: "output_path example_config (filename ?ex) = lit ''out/s1/A_New_Dawn.txt''"
    by (simp add: output_path_def example_config_def lit_def)
  have pe: "path_exists used_world (Path (lit ''out/s1/A_New_Dawn.txt''))"
    by (simp add: path_exists_def stat_def start_at_def Path_def used_world_def startswith_def
        lit_def)
  have rt: "read_text used_world (Path (lit ''out/s1/A_New_Dawn.txt'')) = Some (lit ''kept'')"
    by (simp add: read_text_def stat_def start_at_def Path_def used_world_def startswith_def
        lit_def)
  have h: "example_web (lit ''https://example.com/ch2'') = Inr \<lparr> status_code = 200, document = Inr new_dawn \<rparr> \<and>
      status_code \<lparr> status_code = 200, document = Inr new_dawn \<rparr> = STATUS_CODE_OK \<and>
      document \<lparr> status_code = 200, document = Inr new_dawn \<rparr> = Inr new_dawn \<and>
      extract_page posix new_dawn = Inr ?ex \<and>
      path_exists used_world (Path (output_path example_config (filename ?ex)))"
    using pe o new_dawn_extracted by (simp add: example_web_def STATUS_CODE_OK_def lit_def)
  have r: "requested used_world = []" "slept_ms used_world = []"
    by (simp_all add: used_world_def)
  from existing_output_aborts [of example_web "lit ''https://example.com/ch2''"
      "\<lparr> status_code = 200, document = Inr new_dawn \<rparr>" new_dawn posix ?ex used_world
      example_config 2 "\<lambda>i. 7" 0] h
  obtain w' where "crawl (Suc 2) posix example_config example_web (\<lambda>i. 7) 0 (lit ''https://example.com/ch2'') used_world
            = (Some (FileExistsError (Path (output_path example_config (filename ?ex)))), w')"
     "\<forall>p. read_text w' p = read_text used_world p"
     "requested w' = requested used_world @ [lit ''https://example.com/ch2'']"
     "slept_ms w' = slept_ms used_world"
    by blast
  moreover from this(2) have "read_text w' (Path (lit ''out/s1/A_New_Dawn.txt''))
      = read_text used_world (Path (lit ''out/s1/A_New_Dawn.txt''))"
    by blast
  ultimately show ?thesis
    using pe rt r unfolding o by simp
qed

section \<open>How a run ends\<close>

lemma iteration_to_next_url:
  assumes "net url = Inr resp" and "status_code resp = STATUS_CODE_OK"
    and "document resp = Inr pg" and "extract_page P pg = Inr ex"
    and "fst (write_page P cf ex
           (logmsg DEBUG ''Filename: %s'' (logmsg DEBUG ''Title: %s''
             (logmsg DEBUG ''Parsing HTML document''
               ((logmsg INFO ''Fetch URL: %s'' w)\<lparr>requested := requested w @ [url]\<rparr>))))) = Inr ()"
  shows "\<exists>w4. iteration P cf net draw url w = find_next_url P cf draw (nexturl_matches pg) w4"
proof -
  let ?w3 = "logmsg DEBUG ''Filename: %s'' (logmsg DEBUG ''Title: %s''
    (logmsg DEBUG ''Parsing HTML document''
      ((logmsg INFO ''Fetch URL: %s'' w)\<lparr>requested := requested w @ [url]\<rparr>)))"
  from assms(5) obtain w4 where "write_page P cf ex ?w3 = (Inr (), w4)"
    by (metis prod.collapse)
  with assms(1-4) have "iteration P cf net draw url w = find_next_url P cf draw (nexturl_matches pg) w4"
    by (simp add: iteration_def Let_def)
  then show ?thesis by blast
qed

lemma find_next_url_none: "fst (find_next_url P cf draw [] w) = Inl end_of_chapters"
  by (simp add: find_next_url_def)

lemma find_next_url_javascript:
  assumes b: "src_baseurl cf = lit ''https://example.com/novel/''"
  shows "fst (find_next_url P cf draw [lit ''javascript:void(0)''] w) = Inl end_of_chapters"
proof -
  have sj: "strip (lit ''javascript:void(0)'') = lit ''javascript:void(0)''"
    by (simp add: strip_def is_space_def lit_def)
  have n1: "\<not> startswith (strip (lit ''javascript:void(0)'')) (lit ''/'')"
    unfolding sj by (simp add: startswith_def lit_def)
  have n2: "\<not> startswith (strip (lit ''javascript:void(0)'')) (src_baseurl cf)"
    unfolding sj b by (simp add: startswith_def lit_def)
  show ?thesis
    by (simp add: find_next_url_invalid [OF n1 n2])
qed

lemma baseurl_has_protocol:
  "contains (lower posix (src_baseurl example_config)) (lit ''://'')"
  by (simp add: contains_def lower_def example_config_def is_ascii_def ascii_lower_def lit_def
      sublist_Cons_right)

lemma main_first_turn:
  assumes "contains (lower P (src_baseurl cf)) (lit ''://'')"
    and "fst (iteration P cf net (rng 0) (serie_starturl cf)
           (logmsg DEBUG ''Finished loading configuration'' w)) = Inl e"
  shows "fst (main (Suc fuel) P cf net rng w) = Some e"
  using assms by (auto simp: main_def split: prod.splits sum.splits)


lemma write_page_fresh:
  assumes "fsroot w = Dir Map.empty" and "cwd w = []"
  shows "fst (write_page posix (example_config\<lparr>serie_starturl := u\<rparr>)
           \<lparr> title = lit ''A New Dawn'', filename = lit ''A_New_Dawn'',
             content_firstline = lit ''the sun rose slowly'',
             final_content = lit ''## A New Dawn'' @ [10] @ lit ''The sun rose slowly'' \<rparr> w) = Inr ()"
    and "fst (write_page posix (example_config\<lparr>serie_starturl := u\<rparr>)
           \<lparr> title = [201, 116, 233], filename = lit ''Ete'',
             content_firstline = lit ''il fait chaud.'',
             final_content = lit ''## '' @ [201, 116, 233, 10] @ lit ''Il fait chaud.'' \<rparr> w) = Inr ()"
  using assms
  by (simp_all add: write_page_def write_content_def append_content_def Let_def Path_def parent_def
      mkdir_parents_def start_at_def path_exists_def stat_def is_dir_def os_mkdir_def
      open_write_def logmsg_def startswith_def output_path_def example_config_def lit_def
      text_mode_def posix_def split: sum.splits)

text \<open>
  C1. A run that starts on a page with no next link, and a run that starts on a page
  whose next link passes neither prefix test, both end by the exit
  \<open>SystemExit("End of chapters reached")\<close>; its argument is a string, so the
  interpreter ends with status 1, the status with which a run ends that meets a fatal
  error (here a page answered with status 404).
\<close>

theorem end_of_chapters_exit_status:
  "fst (main (Suc 0) posix (example_config\<lparr>serie_starturl := lit ''https://example.com/novel/ete''\<rparr>)
          example_web (\<lambda>i. 7) empty_world) = Some end_of_chapters \<and>
   fst (main (Suc 0) posix (example_config\<lparr>serie_starturl := lit ''https://example.com/ch2''\<rparr>)
          example_web (\<lambda>i. 7) empty_world) = Some end_of_chapters \<and>
   fst (main (Suc 0) posix (example_config\<lparr>serie_starturl := lit ''https://example.com/gone''\<rparr>)
          example_web (\<lambda>i. 7) empty_world) = Some (RequestException ''Bad page status code'' 404) \<and>
   end_of_chapters = SystemExit (ExitStr ''End of chapters reached'') \<and>
   exit_status end_of_chapters = 1 \<and>
   exit_status (RequestException ''Bad page status code'' 404) = 1 \<and>
   exit_status (SystemExit ExitNone) = 0"
proof -
  let ?w = "logmsg DEBUG ''Finished loading configuration'' empty_world"
  have fresh: "fsroot (logmsg DEBUG ''Filename: %s'' (logmsg DEBUG ''Title: %s''
             (logmsg DEBUG ''Parsing HTML document''
               ((logmsg INFO ''Fetch URL: %s'' ?w)\<lparr>requested := requested ?w @ [url]\<rparr>)))) = Dir Map.empty"
    "cwd (logmsg DEBUG ''Filename: %s'' (logmsg DEBUG ''Title: %s''
             (logmsg DEBUG ''Parsing HTML document''
               ((logmsg INFO ''Fetch URL: %s'' ?w)\<lparr>requested := requested ?w @ [url]\<rparr>)))) = []" for url
    by (simp_all add: empty_world_def)
  have ete: "example_web (lit ''https://example.com/novel/ete'')
      = Inr \<lparr> status_code = 200, document = Inr ete \<rparr>"
    by (simp add: example_web_def lit_def)
  have ch2: "example_web (lit ''https://example.com/ch2'')
      = Inr \<lparr> status_code = 200, document = Inr new_dawn \<rparr>"
    by (simp add: example_web_def lit_def)
  have gone: "example_web (lit ''https://example.com/gone'')
      = Inr \<lparr> status_code = 404, document = Inl ParserError \<rparr>"
    by (simp add: example_web_def lit_def)
  have cf: "src_baseurl (example_config\<lparr>serie_starturl := u\<rparr>) = src_baseurl example_config"
    "request_delay_ms (example_config\<lparr>serie_starturl := u\<rparr>) = request_delay_ms example_config" for u
    by simp_all
  have base: "src_baseurl (example_config\<lparr>serie_starturl := u\<rparr>) = lit ''https://example.com/novel/''" for u
    by (simp add: example_config_def)
  from iteration_to_next_url [of example_web "lit ''https://example.com/novel/ete''" _ ete posix _
      "example_config\<lparr>serie_starturl := lit ''https://example.com/novel/ete''\<rparr>" ?w 7,
      OF ete _ _ ete_extracted write_page_fresh(2) [OF fresh]]
  obtain w4 where "iteration posix (example_config\<lparr>serie_starturl := lit ''https://example.com/novel/ete''\<rparr>)
      example_web 7 (lit ''https://example.com/novel/ete'') ?w
      = find_next_url posix (example_config\<lparr>serie_starturl := lit ''https://example.com/novel/ete''\<rparr>)
          7 (nexturl_matches ete) w4"
    by (auto simp: STATUS_CODE_OK_def)
  then have "fst (iteration posix (example_config\<lparr>serie_starturl := lit ''https://example.com/novel/ete''\<rparr>)
      example_web 7 (lit ''https://example.com/novel/ete'') ?w) = Inl end_of_chapters"
    by (simp add: ete_def find_next_url_none)
  then have a: "fst (main (Suc 0) posix (example_config\<lparr>serie_starturl := lit ''https://example.com/novel/ete''\<rparr>)
          example_web (\<lambda>i. 7) empty_world) = Some end_of_chapters"
    by (intro main_first_turn) (simp_all add: baseurl_has_protocol)
  from iteration_to_next_url [of example_web "lit ''https://example.com/ch2''" _ new_dawn posix _
      "example_config\<lparr>serie_starturl := lit ''https://example.com/ch2''\<rparr>" ?w 7,
      OF ch2 _ _ new_dawn_extracted write_page_fresh(1) [OF fresh]]
  obtain w5 where "iteration posix (example_config\<lparr>serie_starturl := lit ''https://example.com/ch2''\<rparr>)
      example_web 7 (lit ''https://example.com/ch2'') ?w
      = find_next_url posix (example_config\<lparr>serie_starturl := lit ''https://example.com/ch2''\<rparr>)
          7 (nexturl_matches new_dawn) w5"
    by (auto simp: STATUS_CODE_OK_def)
  then have "fst (iteration posix (example_config\<lparr>serie_starturl := lit ''https://example.com/ch2''\<rparr>)
      example_web 7 (lit ''https://example.com/ch2'') ?w) = Inl end_of_chapters"
    by (simp add: new_dawn_def find_next_url_javascript [OF base])
  then have b: "fst (main (Suc 0) posix (example_config\<lparr>serie_starturl := lit ''https://example.com/ch2''\<rparr>)
          example_web (\<lambda>i. 7) empty_world) = Some end_of_chapters"
    by (intro main_first_turn) (simp_all add: baseurl_has_protocol)
  have "fst (iteration posix (example_config\<lparr>serie_starturl := lit ''https://example.com/gone''\<rparr>)
      example_web 7 (lit ''https://example.com/gone'') ?w) = Inl (RequestException ''Bad page status code'' 404)"
    by (simp add: iteration_def Let_def gone STATUS_CODE_OK_def)
  then have c: "fst (main (Suc 0) posix (example_config\<lparr>serie_starturl := lit ''https://example.com/gone''\<rparr>)
          example_web (\<lambda>i. 7) empty_world) = Some (RequestException ''Bad page status code'' 404)"
    by (intro main_first_turn) (simp_all add: baseurl_has_protocol)
  from a b c show ?thesis
    by (simp add: end_of_chapters_def)
qed

end
